theory Spec2Isabelle
  imports Main "HOL-Library.AList" "HOL-Library.Sublist"
begin

section \<open>Python values and exceptions\<close>

text \<open>
  The values exchanged with the backend are the objects that \<^verbatim>\<open>response.json()\<close> builds
  and that \<^verbatim>\<open>model_dump\<close> returns: \<^verbatim>\<open>None\<close>, booleans, integers, strings, lists and
  dictionaries with string keys. A dictionary is an association list in insertion order,
  as a Python \<^verbatim>\<open>dict\<close> is; a dictionary read from JSON has no key twice. Floating-point
  numbers are not part of the model. A character of a \<open>string\<close> stands for one character
  of the Python string.
\<close>

datatype json =
    JNull
  | JBool bool
  | JInt int
  | JStr string
  | JList "json list"
  | JObj "(string \<times> json) list"

text \<open>
  The exceptions the code can meet. \<open>RequestException\<close> stands for whatever
  \<^verbatim>\<open>requests.get\<close>, \<^verbatim>\<open>requests.put\<close> or \<^verbatim>\<open>response.json()\<close> raise; its text is the
  library's. \<open>ValidationError\<close> is what the validation of a model class raises on an
  object that does not fit the class.
\<close>

datatype exn =
    KeyError json
  | IndexError
  | TypeError
  | AttributeError
  | ValueError string
  | RequestException string
  | ValidationError

definition py_bind :: "exn + 'a \<Rightarrow> ('a \<Rightarrow> exn + 'b) \<Rightarrow> exn + 'b" where
  "py_bind m f = (case m of Inl e \<Rightarrow> Inl e | Inr x \<Rightarrow> f x)"

text \<open>\<^verbatim>\<open>try: body  except Exception as e: handler\<close>\<close>

definition try_except :: "exn + 'a \<Rightarrow> (exn \<Rightarrow> exn + 'a) \<Rightarrow> exn + 'a" where
  "try_except body handler = (case body of Inl e \<Rightarrow> handler e | Inr x \<Rightarrow> Inr x)"

text \<open>\<^verbatim>\<open>d[k]\<close>, \<^verbatim>\<open>d[k] = v\<close> and \<^verbatim>\<open>del d[k]\<close> for a string \<open>k\<close>.\<close>

definition getitem :: "json \<Rightarrow> string \<Rightarrow> exn + json" where
  "getitem d k =
     (case d of
        JObj kvs \<Rightarrow> (case map_of kvs k of None \<Rightarrow> Inl (KeyError (JStr k)) | Some v \<Rightarrow> Inr v)
      | _ \<Rightarrow> Inl TypeError)"

definition setitem :: "json \<Rightarrow> string \<Rightarrow> json \<Rightarrow> exn + json" where
  "setitem d k v =
     (case d of
        JObj kvs \<Rightarrow> Inr (JObj (AList.update k v kvs))
      | _ \<Rightarrow> Inl TypeError)"

definition delitem :: "json \<Rightarrow> string \<Rightarrow> exn + json" where
  "delitem d k =
     (case d of
        JObj kvs \<Rightarrow>
          (case map_of kvs k of
             None \<Rightarrow> Inl (KeyError (JStr k))
           | Some v \<Rightarrow> Inr (JObj (AList.delete k kvs)))
      | _ \<Rightarrow> Inl TypeError)"

text \<open>\<^verbatim>\<open>len(x)\<close>, \<^verbatim>\<open>x[0]\<close>, \<^verbatim>\<open>x[-1]\<close>, \<^verbatim>\<open>x.pop()\<close>, \<^verbatim>\<open>x.append(v)\<close> and the truth value of \<open>x\<close>.\<close>

definition py_len :: "json \<Rightarrow> exn + nat" where
  "py_len x =
     (case x of
        JList xs \<Rightarrow> Inr (length xs)
      | JStr s \<Rightarrow> Inr (length s)
      | JObj kvs \<Rightarrow> Inr (length kvs)
      | _ \<Rightarrow> Inl TypeError)"

definition py_first :: "json \<Rightarrow> exn + json" where
  "py_first x =
     (case x of
        JList xs \<Rightarrow> (case xs of [] \<Rightarrow> Inl IndexError | y # ys \<Rightarrow> Inr y)
      | JStr s \<Rightarrow> (case s of [] \<Rightarrow> Inl IndexError | c # cs \<Rightarrow> Inr (JStr [c]))
      | JObj kvs \<Rightarrow> Inl (KeyError (JInt 0))
      | _ \<Rightarrow> Inl TypeError)"

definition py_last :: "json \<Rightarrow> exn + json" where
  "py_last x =
     (case x of
        JList xs \<Rightarrow> (if xs = [] then Inl IndexError else Inr (last xs))
      | JStr s \<Rightarrow> (if s = [] then Inl IndexError else Inr (JStr [last s]))
      | JObj kvs \<Rightarrow> Inl (KeyError (JInt (- 1)))
      | _ \<Rightarrow> Inl TypeError)"

definition py_pop :: "json \<Rightarrow> exn + json" where
  "py_pop x =
     (case x of
        JList xs \<Rightarrow> (if xs = [] then Inl IndexError else Inr (JList (butlast xs)))
      | JObj kvs \<Rightarrow> Inl TypeError
      | _ \<Rightarrow> Inl AttributeError)"

definition py_append :: "json \<Rightarrow> json \<Rightarrow> exn + json" where
  "py_append x v =
     (case x of
        JList xs \<Rightarrow> Inr (JList (xs @ [v]))
      | _ \<Rightarrow> Inl AttributeError)"

definition truthy :: "json \<Rightarrow> bool" where
  "truthy x =
     (case x of
        JNull \<Rightarrow> False
      | JBool b \<Rightarrow> b
      | JInt i \<Rightarrow> i \<noteq> 0
      | JStr s \<Rightarrow> s \<noteq> []
      | JList xs \<Rightarrow> xs \<noteq> []
      | JObj kvs \<Rightarrow> kvs \<noteq> [])"

section \<open>The expression model (classes.py)\<close>

text \<open>
  Field names that end in an underscore in the source (\<^verbatim>\<open>and_\<close>, \<^verbatim>\<open>or_\<close>, \<^verbatim>\<open>else_\<close>)
  and the field \<^verbatim>\<open>function\<close> carry the suffix \<open>field\<close> here, as do \<^verbatim>\<open>when\<close> and the
  fields two classes share.
\<close>

datatype scalar = SStr string | SInt int | SBool bool

record comparison_value =
  input :: "scalar option"
  datetime :: "string option"
  cv_column_name :: "string option"

datatype operator =
    Equal_to | Not_equal_to | Greater_than | Less_than
  | Greater_than_or_equal_to | Less_than_or_equal_to
  | Contains | Does_not_contain | Starts_with | Does_not_start_with
  | Ends_with | Does_not_end_with

fun operator_literal :: "operator \<Rightarrow> string" where
  "operator_literal Equal_to = ''equal to''"
| "operator_literal Not_equal_to = ''not equal to''"
| "operator_literal Greater_than = ''greater than''"
| "operator_literal Less_than = ''less than''"
| "operator_literal Greater_than_or_equal_to = ''greater than or equal to''"
| "operator_literal Less_than_or_equal_to = ''less than or equal to''"
| "operator_literal Contains = ''contains''"
| "operator_literal Does_not_contain = ''does not contain''"
| "operator_literal Starts_with = ''starts with''"
| "operator_literal Does_not_start_with = ''does not start with''"
| "operator_literal Ends_with = ''ends with''"
| "operator_literal Does_not_end_with = ''does not end with''"

record condition =
  column_name :: string
  operator :: operator
  comparison_value :: comparison_value

datatype length_function = Length

record replace_condition = condition +
  function_field :: "length_function option"

datatype logical_expression =
  LogicalExpression (and_field: "member list option") (or_field: "member list option")
and member =
  MExpression logical_expression | MCondition condition

type_synonym replace_result_value = comparison_value

datatype replace_logical_expression =
  ReplaceLogicalExpression
    (replace_and_field: "replace_member list option")
    (replace_or_field: "replace_member list option")
    (result_value: replace_result_value)
and replace_member =
  RExpression replace_logical_expression | RCondition replace_condition

record replace_expression =
  else_field :: replace_result_value
  when_field :: "replace_logical_expression list"

record filter_action =
  filter_expression :: logical_expression

record replace_action =
  expression :: replace_expression
  replace_column :: string

subsection \<open>Construction\<close>

text \<open>
  \<^verbatim>\<open>not self.and_\<close>: an \<^verbatim>\<open>Optional[List[...]]\<close> is false when it is \<^verbatim>\<open>None\<close> or empty.
\<close>

definition populated :: "'a list option \<Rightarrow> bool" where
  "populated branch = (case branch of None \<Rightarrow> False | Some xs \<Rightarrow> xs \<noteq> [])"

definition validate_structure :: "logical_expression \<Rightarrow> exn + unit" where
  "validate_structure self =
     (if \<not> populated (and_field self) \<and> \<not> populated (or_field self)
      then Inl (ValueError ''Either 'and' or 'or' must be present in LogicalExpression.'')
      else Inr ())"

text \<open>
  \<^verbatim>\<open>LogicalExpression.__init__\<close>: the fields are stored, then \<^verbatim>\<open>validate_structure\<close> runs.
  \<^verbatim>\<open>ReplaceLogicalExpression\<close> inherits both methods.
\<close>

definition LogicalExpression_init ::
  "member list option \<Rightarrow> member list option \<Rightarrow> exn + logical_expression" where
  "LogicalExpression_init a b =
     (let self = LogicalExpression a b
      in py_bind (validate_structure self) (\<lambda>_. Inr self))"

definition replace_validate_structure :: "replace_logical_expression \<Rightarrow> exn + unit" where
  "replace_validate_structure self =
     (if \<not> populated (replace_and_field self) \<and> \<not> populated (replace_or_field self)
      then Inl (ValueError ''Either 'and' or 'or' must be present in LogicalExpression.'')
      else Inr ())"

definition ReplaceLogicalExpression_init ::
  "replace_member list option \<Rightarrow> replace_member list option \<Rightarrow> replace_result_value
     \<Rightarrow> exn + replace_logical_expression" where
  "ReplaceLogicalExpression_init a b r =
     (let self = ReplaceLogicalExpression a b r
      in py_bind (replace_validate_structure self) (\<lambda>_. Inr self))"

section \<open>Serialization\<close>

subsection \<open>\<^verbatim>\<open>model_dump(by_alias=True, exclude_none=False)\<close>\<close>

text \<open>
  Every declared field is written, in declaration order, under its alias when it has one
  (\<^verbatim>\<open>and_\<close> as \<^verbatim>\<open>and\<close>, \<^verbatim>\<open>or_\<close> as \<^verbatim>\<open>or\<close>) and under its own name otherwise
  (\<^verbatim>\<open>else_\<close> has no alias); a field that is \<^verbatim>\<open>None\<close> is written as \<^verbatim>\<open>None\<close>.
\<close>

definition dump_optional :: "('a \<Rightarrow> json) \<Rightarrow> 'a option \<Rightarrow> json" where
  "dump_optional f v = (case v of None \<Rightarrow> JNull | Some x \<Rightarrow> f x)"

fun dump_scalar :: "scalar \<Rightarrow> json" where
  "dump_scalar (SStr s) = JStr s"
| "dump_scalar (SInt i) = JInt i"
| "dump_scalar (SBool b) = JBool b"

definition dump_ComparisonValue :: "comparison_value \<Rightarrow> json" where
  "dump_ComparisonValue v =
     JObj [(''input'', dump_optional dump_scalar (input v)),
           (''datetime'', dump_optional JStr (datetime v)),
           (''column_name'', dump_optional JStr (cv_column_name v))]"

definition dump_Condition :: "condition \<Rightarrow> json" where
  "dump_Condition c =
     JObj [(''column_name'', JStr (column_name c)),
           (''operator'', JStr (operator_literal (operator c))),
           (''comparison_value'', dump_ComparisonValue (comparison_value c))]"

definition dump_ReplaceCondition :: "replace_condition \<Rightarrow> json" where
  "dump_ReplaceCondition c =
     JObj [(''column_name'', JStr (column_name c)),
           (''operator'', JStr (operator_literal (operator c))),
           (''comparison_value'', dump_ComparisonValue (comparison_value c)),
           (''function'', dump_optional (\<lambda>_. JStr ''length'') (function_field c))]"

fun dump_LogicalExpression :: "logical_expression \<Rightarrow> json"
and dump_member :: "member \<Rightarrow> json" where
  "dump_LogicalExpression (LogicalExpression a b) =
     JObj [(''and'', case a of None \<Rightarrow> JNull | Some xs \<Rightarrow> JList (map dump_member xs)),
           (''or'', case b of None \<Rightarrow> JNull | Some xs \<Rightarrow> JList (map dump_member xs))]"
| "dump_member (MExpression e) = dump_LogicalExpression e"
| "dump_member (MCondition c) = dump_Condition c"

fun dump_ReplaceLogicalExpression :: "replace_logical_expression \<Rightarrow> json"
and dump_replace_member :: "replace_member \<Rightarrow> json" where
  "dump_ReplaceLogicalExpression (ReplaceLogicalExpression a b r) =
     JObj [(''and'', case a of None \<Rightarrow> JNull | Some xs \<Rightarrow> JList (map dump_replace_member xs)),
           (''or'', case b of None \<Rightarrow> JNull | Some xs \<Rightarrow> JList (map dump_replace_member xs)),
           (''result_value'', dump_ComparisonValue r)]"
| "dump_replace_member (RExpression e) = dump_ReplaceLogicalExpression e"
| "dump_replace_member (RCondition c) = dump_ReplaceCondition c"

definition dump_FilterAction :: "filter_action \<Rightarrow> json" where
  "dump_FilterAction a = JObj [(''expression'', dump_LogicalExpression (filter_expression a))]"

definition dump_ReplaceExpression :: "replace_expression \<Rightarrow> json" where
  "dump_ReplaceExpression e =
     JObj [(''else_'', dump_ComparisonValue (else_field e)),
           (''when'', JList (map dump_ReplaceLogicalExpression (when_field e)))]"

definition dump_ReplaceAction :: "replace_action \<Rightarrow> json" where
  "dump_ReplaceAction a =
     JObj [(''expression'', dump_ReplaceExpression (expression a)),
           (''replace_column'', JStr (replace_column a))]"

subsection \<open>The step object of the filter tool (tools.py, lines 145 to 151)\<close>

text \<open>
  \<^verbatim>\<open>if d["and"] is None: del d["and"]  else: del d["or"]\<close>, for the dictionary \<open>d\<close>.
\<close>

definition drop_branch :: "json \<Rightarrow> exn + json" where
  "drop_branch d =
     py_bind (getitem d ''and'') (\<lambda>a.
       if a = JNull then delitem d ''and'' else delitem d ''or'')"

definition filter_step :: "logical_expression \<Rightarrow> exn + json" where
  "filter_step expr =
     (let filter_obj = \<lparr>filter_expression = expr\<rparr>;
          filter_data = dump_FilterAction filter_obj
      in py_bind (getitem filter_data ''expression'') (\<lambda>e.
         py_bind (drop_branch e) (\<lambda>e'.
         py_bind (setitem filter_data ''expression'' e') (\<lambda>filter_data'.
         setitem filter_data' ''action'' (JStr ''filter'')))))"

subsection \<open>The step object of the replace tool (tools.py, lines 189 to 204)\<close>

text \<open>The loop over \<^verbatim>\<open>replace_data["expression"]["when"]\<close>.\<close>

fun drop_branches :: "json list \<Rightarrow> exn + json list" where
  "drop_branches [] = Inr []"
| "drop_branches (when_condition # rest) =
     py_bind (drop_branch when_condition) (\<lambda>w.
     py_bind (drop_branches rest) (\<lambda>ws. Inr (w # ws)))"

text \<open>
  The dump of the list field \<^verbatim>\<open>when\<close> is a list, so the last case below is never taken.
\<close>

definition replace_step :: "replace_expression \<Rightarrow> string \<Rightarrow> exn + json" where
  "replace_step expr column =
     (let replace_obj = \<lparr>expression = expr, replace_column = column\<rparr>;
          replace_data = dump_ReplaceAction replace_obj
      in py_bind (getitem replace_data ''expression'') (\<lambda>e0.
         py_bind (getitem e0 ''else_'') (\<lambda>els.
         py_bind (setitem e0 ''else'' els) (\<lambda>e1.
         py_bind (delitem e1 ''else_'') (\<lambda>e2.
         py_bind (setitem e2 ''replace_column'' (JStr column)) (\<lambda>e3.
         py_bind (setitem replace_data ''expression'' e3) (\<lambda>d1.
         py_bind (delitem d1 ''replace_column'') (\<lambda>d2.
         py_bind (getitem e3 ''when'') (\<lambda>whens.
         (case whens of
            JList ws \<Rightarrow>
              py_bind (drop_branches ws) (\<lambda>ws'.
              py_bind (setitem e3 ''when'' (JList ws')) (\<lambda>e4.
              py_bind (setitem d2 ''expression'' e4) (\<lambda>d3.
              setitem d3 ''action'' (JStr ''replace''))))
          | _ \<Rightarrow> Inl TypeError))))))))))"

text \<open>
  The wire object that the loop leaves for one \<^verbatim>\<open>when\<close> entry: the \<^verbatim>\<open>or\<close> list when
  \<^verbatim>\<open>and\<close> is \<^verbatim>\<open>None\<close>, the \<^verbatim>\<open>and\<close> list otherwise, and the result value.
\<close>

definition stripped_when :: "replace_logical_expression \<Rightarrow> json" where
  "stripped_when w =
     (case replace_and_field w of
        None \<Rightarrow>
          JObj [(''or'', dump_optional (\<lambda>xs. JList (map dump_replace_member xs)) (replace_or_field w)),
                (''result_value'', dump_ComparisonValue (result_value w))]
      | Some xs \<Rightarrow>
          JObj [(''and'', JList (map dump_replace_member xs)),
                (''result_value'', dump_ComparisonValue (result_value w))])"

text \<open>Some dictionary, at any depth of the value, holds both an \<^verbatim>\<open>and\<close> and an \<^verbatim>\<open>or\<close> key.\<close>

fun both_keys :: "json \<Rightarrow> bool" where
  "both_keys (JList xs) = list_ex both_keys xs"
| "both_keys (JObj kvs) =
     ((map_of kvs ''and'' \<noteq> None \<and> map_of kvs ''or'' \<noteq> None)
      \<or> list_ex (\<lambda>kv. both_keys (snd kv)) kvs)"
| "both_keys JNull = False"
| "both_keys (JBool b) = False"
| "both_keys (JInt i) = False"
| "both_keys (JStr s) = False"

section \<open>The tools (tools.py)\<close>

subsection \<open>The backend and the interpreter\<close>

text \<open>
  A tool call sends one GET and at most one PUT. \<open>requests_get\<close> is what the GET does
  (it raises, or it returns a response), \<open>requests_put\<close> what the PUT of a body does.
  A response has a status code, and \<^verbatim>\<open>response.json()\<close> raises or returns a value.
  \<open>str_of\<close> is the built-in \<^verbatim>\<open>str\<close> on a value that is not a string and \<open>str_exn\<close>
  the built-in \<^verbatim>\<open>str\<close> on an exception, the two the f-strings of the tools call.
\<close>

datatype response = Response (status_code: int) (json_body: "exn + json")

record world =
  requests_get :: "exn + response"
  requests_put :: "json \<Rightarrow> exn + response"
  str_of :: "json \<Rightarrow> string"
  str_exn :: "exn \<Rightarrow> string"

definition py_str :: "world \<Rightarrow> json \<Rightarrow> string" where
  "py_str w v = (case v of JStr s \<Rightarrow> s | _ \<Rightarrow> str_of w v)"

subsection \<open>\<^verbatim>\<open>change_response_data\<close>\<close>

text \<open>
  The dictionary \<^verbatim>\<open>altered_transformed_data\<close>: its keys are values of the first row, so
  any hashable value; \<^verbatim>\<open>True\<close> and \<^verbatim>\<open>1\<close>, \<^verbatim>\<open>False\<close> and \<^verbatim>\<open>0\<close> are the same key, and
  a list or a dictionary is no key at all. An entry keeps the key object it was created
  with.
\<close>

datatype key = KNone | KNum int | KStr string

fun key_of :: "json \<Rightarrow> key option" where
  "key_of JNull = Some KNone"
| "key_of (JBool b) = Some (KNum (if b then 1 else 0))"
| "key_of (JInt i) = Some (KNum i)"
| "key_of (JStr s) = Some (KStr s)"
| "key_of (JList xs) = None"
| "key_of (JObj kvs) = None"

type_synonym columns = "(json \<times> json list) list"

text \<open>\<^verbatim>\<open>d[c] = v\<close> for a key \<open>c\<close> of class \<open>k\<close>.\<close>

fun store :: "key \<Rightarrow> json \<Rightarrow> json list \<Rightarrow> columns \<Rightarrow> columns" where
  "store k c v [] = [(c, v)]"
| "store k c v ((c', v') # d) =
     (if key_of c' = Some k then (c', v) # d else (c', v') # store k c v d)"

text \<open>\<^verbatim>\<open>d[c].append(x)\<close> for a key of class \<open>k\<close>; \<open>None\<close> when the key is missing.\<close>

fun append_at :: "key \<Rightarrow> json \<Rightarrow> columns \<Rightarrow> columns option" where
  "append_at k x [] = None"
| "append_at k x ((c', v') # d) =
     (if key_of c' = Some k then Some ((c', v' @ [x]) # d)
      else map_option (Cons (c', v')) (append_at k x d))"

text \<open>\<^verbatim>\<open>for column in column_row.values(): altered_transformed_data[column] = []\<close>\<close>

fun init_columns :: "json list \<Rightarrow> columns \<Rightarrow> exn + columns" where
  "init_columns [] d = Inr d"
| "init_columns (column # rest) d =
     (case key_of column of
        None \<Rightarrow> Inl TypeError
      | Some k \<Rightarrow> init_columns rest (store k column [] d))"

text \<open>
  \<^verbatim>\<open>for key, value in row.items(): altered_transformed_data[column_row[key]].append(value)\<close>
\<close>

fun append_row :: "(string \<times> json) list \<Rightarrow> (string \<times> json) list \<Rightarrow> columns \<Rightarrow> exn + columns" where
  "append_row column_row [] d = Inr d"
| "append_row column_row ((k, v) # items) d =
     (case map_of column_row k of
        None \<Rightarrow> Inl (KeyError (JStr k))
      | Some column \<Rightarrow>
          (case key_of column of
             None \<Rightarrow> Inl TypeError
           | Some kc \<Rightarrow>
               (case append_at kc v d of
                  None \<Rightarrow> Inl (KeyError column)
                | Some d' \<Rightarrow> append_row column_row items d')))"

text \<open>
  \<^verbatim>\<open>for row in transformation_data: ...; index += 1; if index > 2: break\<close>.
  \<^verbatim>\<open>row.items()\<close> exists for a dictionary only.
\<close>

fun append_rows :: "(string \<times> json) list \<Rightarrow> json list \<Rightarrow> nat \<Rightarrow> columns \<Rightarrow> exn + columns" where
  "append_rows column_row [] index d = Inr d"
| "append_rows column_row (row # rows) index d =
     (case row of
        JObj items \<Rightarrow>
          (case append_row column_row items d of
             Inl e \<Rightarrow> Inl e
           | Inr d' \<Rightarrow>
               if index + 1 > 2 then Inr d'
               else append_rows column_row rows (index + 1) d')
      | _ \<Rightarrow> Inl AttributeError)"

text \<open>
  Lines 102 to 117. After \<^verbatim>\<open>transformation_data[0]\<close> has returned a dictionary the data are
  a list, the one value the loop then iterates.
\<close>

definition pivot :: "json \<Rightarrow> exn + columns" where
  "pivot transformation_data =
     py_bind (py_len transformation_data) (\<lambda>n.
       if n \<noteq> 0 then
         py_bind (py_first transformation_data) (\<lambda>column_row.
           case column_row of
             JObj cr \<Rightarrow>
               py_bind (init_columns (map snd cr) []) (\<lambda>d.
                 case transformation_data of
                   JList rows \<Rightarrow> append_rows cr rows 0 d
                 | _ \<Rightarrow> Inl TypeError)
           | _ \<Rightarrow> Inl AttributeError)
       else Inr [])"

text \<open>
  The returned dictionary: \<^verbatim>\<open>data\<close> and \<^verbatim>\<open>steps\<close> always, \<^verbatim>\<open>error\<close> only when line 125
  adds it (\<open>None\<close>: the key is absent).
\<close>

record result_dict =
  data :: columns
  steps :: json
  error :: "string option"

text \<open>Lines 123 to 127: the value of the \<^verbatim>\<open>error\<close> key, if the key is set.\<close>

definition last_step_error :: "world \<Rightarrow> json \<Rightarrow> exn + string option" where
  "last_step_error w stps =
     py_bind (py_len stps) (\<lambda>n.
       if n > 0 then
         py_bind (py_last stps) (\<lambda>step.
         py_bind (getitem step ''error'') (\<lambda>err.
           if truthy err
           then Inr (Some (''Error in the last step: '' @ py_str w err))
           else Inr None))
       else Inr None)"

definition change_response_data :: "world \<Rightarrow> json \<Rightarrow> bool \<Rightarrow> exn + result_dict" where
  "change_response_data w response_data check_last_step_for_error =
     py_bind (getitem response_data ''data'') (\<lambda>transformation_data.
     py_bind (pivot transformation_data) (\<lambda>altered_transformed_data.
     py_bind (getitem response_data ''steps'') (\<lambda>stps.
       if check_last_step_for_error
       then py_bind (last_step_error w stps) (\<lambda>err.
              Inr \<lparr>data = altered_transformed_data, steps = stps, error = err\<rparr>)
       else Inr \<lparr>data = altered_transformed_data, steps = stps, error = None\<rparr>)))"

subsection \<open>\<^verbatim>\<open>get_transformation_data\<close>\<close>

text \<open>A tool returns a dictionary or a string, or it raises (\<open>Inl\<close>).\<close>

datatype tool_value = Dict result_dict | Str string

text \<open>Lines 41 to 52. The handler is \<^verbatim>\<open>raise e\<close>; the \<^verbatim>\<open>return\<close> after it is never reached.\<close>

definition get_transformation_data :: "world \<Rightarrow> exn + tool_value" where
  "get_transformation_data w =
     try_except
       (py_bind (requests_get w) (\<lambda>response.
          if status_code response = 200 then
            py_bind (json_body response) (\<lambda>response_data.
            py_bind (change_response_data w response_data False) (\<lambda>r. Inr (Dict r)))
          else Inr (Str ''Failed to get transformation data for some reason'')))
       (\<lambda>e. Inl e)"

text \<open>
  \<^verbatim>\<open>get_transformation_data.invoke(input=None)["steps"]\<close>: the tool runs, and what it
  returns is subscripted; a string cannot be subscripted by a string.
\<close>

definition fetch_steps :: "world \<Rightarrow> exn + json" where
  "fetch_steps w =
     py_bind (get_transformation_data w) (\<lambda>v.
       case v of Dict r \<Rightarrow> Inr (steps r) | Str s \<Rightarrow> Inl TypeError)"

subsection \<open>\<^verbatim>\<open>remove_last_step\<close>\<close>

text \<open>
  Lines 69 and 70:
  \<^verbatim>\<open>if len(transformation_steps) > number_of_steps: number_of_steps = len(transformation_steps)\<close>
\<close>

definition clamped_count :: "nat \<Rightarrow> int \<Rightarrow> int" where
  "clamped_count len number_of_steps =
     (if int len > number_of_steps then int len else number_of_steps)"

text \<open>\<^verbatim>\<open>for _ in range(n): transformation_steps.pop()\<close>\<close>

fun pop_times :: "nat \<Rightarrow> json \<Rightarrow> exn + json" where
  "pop_times 0 transformation_steps = Inr transformation_steps"
| "pop_times (Suc n) transformation_steps =
     py_bind (py_pop transformation_steps) (pop_times n)"

text \<open>Lines 68 to 73: the value of \<^verbatim>\<open>put_request_data\<close>.\<close>

definition remove_last_step_request :: "world \<Rightarrow> int \<Rightarrow> exn + json" where
  "remove_last_step_request w number_of_steps =
     py_bind (fetch_steps w) (\<lambda>transformation_steps.
     py_bind (py_len transformation_steps) (\<lambda>len.
     py_bind (pop_times (nat (clamped_count len number_of_steps)) transformation_steps) (\<lambda>popped.
       Inr (JObj [(''steps'', popped)]))))"

text \<open>Lines 74 to 83: the PUT of the body and what is made of its response.\<close>

definition remove_last_step_put :: "world \<Rightarrow> json \<Rightarrow> exn + tool_value" where
  "remove_last_step_put w put_request_data =
     py_bind (requests_put w put_request_data) (\<lambda>response.
       if status_code response = 201 then
         py_bind (json_body response) (\<lambda>response_data.
         py_bind (change_response_data w response_data True) (\<lambda>r. Inr (Dict r)))
       else Inr (Str (''Failed to remove the last step: '' @ str_of w (JInt (status_code response)))))"

definition remove_last_step_handler :: "world \<Rightarrow> exn \<Rightarrow> exn + tool_value" where
  "remove_last_step_handler w e = Inr (Str (''Failed to remove the last step: '' @ str_exn w e))"

definition remove_last_step :: "world \<Rightarrow> int \<Rightarrow> exn + tool_value" where
  "remove_last_step w number_of_steps =
     try_except
       (py_bind (remove_last_step_request w number_of_steps) (remove_last_step_put w))
       (remove_last_step_handler w)"

subsection \<open>\<^verbatim>\<open>add_filter_action_tool\<close> and \<^verbatim>\<open>add_replace_action_tool\<close>\<close>

text \<open>Lines 160 to 169 and 213 to 222, the same in both tools.\<close>

definition add_step_put :: "world \<Rightarrow> json \<Rightarrow> exn + tool_value" where
  "add_step_put w put_request_data =
     py_bind (requests_put w put_request_data) (\<lambda>response.
       if status_code response = 201 then
         py_bind (json_body response) (\<lambda>response_data.
         py_bind (change_response_data w response_data True) (\<lambda>r. Inr (Dict r)))
       else Inr (Str (''Failed to get transformation data for some reason: ''
                        @ str_of w (JInt (status_code response)))))"

text \<open>Lines 155 to 158 and 208 to 211: the step list with the new step appended.\<close>

definition add_step_request :: "world \<Rightarrow> json \<Rightarrow> exn + json" where
  "add_step_request w step =
     py_bind (fetch_steps w) (\<lambda>transformation_steps.
     py_bind (py_append transformation_steps step) (\<lambda>appended.
       Inr (JObj [(''steps'', appended)])))"

definition add_filter_action_tool :: "world \<Rightarrow> logical_expression \<Rightarrow> exn + tool_value" where
  "add_filter_action_tool w expr =
     try_except
       (py_bind (filter_step expr) (\<lambda>filter_data.
        py_bind (add_step_request w filter_data) (add_step_put w)))
       (\<lambda>e. Inr (Str (''Failed to add data: '' @ str_exn w e)))"

text \<open>The handler of the replace tool is \<^verbatim>\<open>raise e\<close>, as in \<^verbatim>\<open>get_transformation_data\<close>.\<close>

definition add_replace_action_tool ::
  "world \<Rightarrow> replace_expression \<Rightarrow> string \<Rightarrow> exn + tool_value" where
  "add_replace_action_tool w expr column =
     try_except
       (py_bind (replace_step expr column) (\<lambda>replace_data.
        py_bind (add_step_request w replace_data) (add_step_put w)))
       (\<lambda>e. Inl e)"

subsection \<open>A backend for the examples\<close>

text \<open>
  A backend that answers the GET with status 200 and the given body, and every PUT with
  status 201 and the step list it was sent, over no data.
\<close>

definition echo_backend :: "json \<Rightarrow> world" where
  "echo_backend body =
     \<lparr>requests_get = Inr (Response 200 (Inr body)),
      requests_put = (\<lambda>put_request_data.
        Inr (Response 201
          (Inr (JObj [(''data'', JList []),
                      (''steps'', case getitem put_request_data ''steps'' of
                                    Inr s \<Rightarrow> s | Inl e \<Rightarrow> JNull)])))),
      str_of = (\<lambda>v. ''<object>''),
      str_exn = (\<lambda>e. case e of
                   ValueError m \<Rightarrow> m
                 | RequestException m \<Rightarrow> m
                 | _ \<Rightarrow> ''<exception>'')\<rparr>"

text \<open>A backend that cannot be reached: both requests raise.\<close>

definition unreachable_backend :: world where
  "unreachable_backend =
     \<lparr>requests_get = Inl (RequestException ''connection refused''),
      requests_put = (\<lambda>put_request_data. Inl (RequestException ''connection refused'')),
      str_of = (\<lambda>v. ''<object>''),
      str_exn = (\<lambda>e. case e of
                   ValueError m \<Rightarrow> m
                 | RequestException m \<Rightarrow> m
                 | _ \<Rightarrow> ''<exception>'')\<rparr>"

subsection \<open>Example values\<close>

definition country_is_US :: condition where
  "country_is_US =
     \<lparr>column_name = ''Country'', operator = Equal_to,
      comparison_value = \<lparr>input = Some (SStr ''US''), datetime = None, cv_column_name = None\<rparr>\<rparr>"

definition filter_step_example :: json where
  "filter_step_example =
     JObj [(''action'', JStr ''filter''),
           (''expression'', JObj [(''and'', JList [dump_Condition country_is_US])]),
           (''error'', JNull)]"

text \<open>
  The table the pivot is expected to build from the first row \<open>column_row\<close>: one column
  per entry (identifier, name) of that row, in its order, named \<open>name\<close> and holding the
  values \<open>f identifier\<close>.
\<close>

definition columns_of :: "(string \<times> json) list \<Rightarrow> (string \<Rightarrow> json list) \<Rightarrow> columns" where
  "columns_of column_row f = map (\<lambda>e. (snd e, f (fst e))) column_row"

definition sample_data :: json where
  "sample_data =
     JList [JObj [(''c1'', JStr ''Country''), (''c2'', JStr ''AUM'')],
            JObj [(''c2'', JInt 10), (''c1'', JStr ''US'')],
            JObj [(''c1'', JStr ''FR''), (''c2'', JInt 20)],
            JObj [(''c1'', JStr ''DE''), (''c2'', JInt 30)]]"

text \<open>Four rows of a data set whose two columns carry the same name.\<close>

definition duplicate_names_data :: json where
  "duplicate_names_data =
     JList [JObj [(''c1'', JStr ''Name''), (''c2'', JStr ''Name'')],
            JObj [(''c1'', JStr ''Ann''), (''c2'', JStr ''Lee'')],
            JObj [(''c1'', JStr ''Bob''), (''c2'', JStr ''Kim'')],
            JObj [(''c1'', JStr ''Cy''), (''c2'', JStr ''Ng'')]]"

section \<open>Deserialization\<close>

text \<open>
  An object becomes a value of the expression model by the validation that the classes of
  classes.py inherit from \<^verbatim>\<open>BaseModel\<close>, run over their field declarations:
  \<^item> a field is looked up under its alias and then, the class being declared with
    \<^verbatim>\<open>populate_by_name\<close>, under its own name; \<^verbatim>\<open>else_\<close> has no alias;
  \<^item> an optional field that is missing or \<^verbatim>\<open>None\<close> is \<^verbatim>\<open>None\<close>; a required field must
    be there; keys that name no field are ignored;
  \<^item> a \<^verbatim>\<open>str\<close> field takes a string only, the operator one of its twelve literals, the
    function \<^verbatim>\<open>"length"\<close> only;
  \<^item> a member of a branch, of type \<^verbatim>\<open>Union[LogicalExpression, Condition]\<close>, is validated
    as a \<^verbatim>\<open>LogicalExpression\<close> and, when that fails, as a \<^verbatim>\<open>Condition\<close>;
  \<^item> a logical expression is built through its \<^verbatim>\<open>__init__\<close>, so \<^verbatim>\<open>validate_structure\<close>
    runs on every node, nested ones included.

  An object of the wire format fits one of the two classes of a union only: a condition
  has neither branch and fails \<^verbatim>\<open>validate_structure\<close>, a node lacks the fields of a
  condition. What the validation makes of an object that fits both is not used below:
  the round trip is proved for every expression the constructors can build.
\<close>

fun operator_of_literal :: "string \<Rightarrow> operator option" where
  "operator_of_literal s =
     (if s = ''equal to'' then Some Equal_to
      else if s = ''not equal to'' then Some Not_equal_to
      else if s = ''greater than'' then Some Greater_than
      else if s = ''less than'' then Some Less_than
      else if s = ''greater than or equal to'' then Some Greater_than_or_equal_to
      else if s = ''less than or equal to'' then Some Less_than_or_equal_to
      else if s = ''contains'' then Some Contains
      else if s = ''does not contain'' then Some Does_not_contain
      else if s = ''starts with'' then Some Starts_with
      else if s = ''does not start with'' then Some Does_not_start_with
      else if s = ''ends with'' then Some Ends_with
      else if s = ''does not end with'' then Some Does_not_end_with
      else None)"

text \<open>The value given for a field with an alias.\<close>

definition field :: "(string \<times> json) list \<Rightarrow> string \<Rightarrow> string \<Rightarrow> json option" where
  "field kvs alias name =
     (case map_of kvs alias of Some v \<Rightarrow> Some v | None \<Rightarrow> map_of kvs name)"

definition validate_optional_str :: "json option \<Rightarrow> exn + string option" where
  "validate_optional_str v =
     (case v of
        None \<Rightarrow> Inr None
      | Some JNull \<Rightarrow> Inr None
      | Some (JStr s) \<Rightarrow> Inr (Some s)
      | Some _ \<Rightarrow> Inl ValidationError)"

definition validate_optional_scalar :: "json option \<Rightarrow> exn + scalar option" where
  "validate_optional_scalar v =
     (case v of
        None \<Rightarrow> Inr None
      | Some JNull \<Rightarrow> Inr None
      | Some (JStr s) \<Rightarrow> Inr (Some (SStr s))
      | Some (JInt i) \<Rightarrow> Inr (Some (SInt i))
      | Some (JBool b) \<Rightarrow> Inr (Some (SBool b))
      | Some _ \<Rightarrow> Inl ValidationError)"

definition validate_ComparisonValue :: "json \<Rightarrow> exn + comparison_value" where
  "validate_ComparisonValue j =
     (case j of
        JObj kvs \<Rightarrow>
          py_bind (validate_optional_scalar (map_of kvs ''input'')) (\<lambda>i.
          py_bind (validate_optional_str (map_of kvs ''datetime'')) (\<lambda>d.
          py_bind (validate_optional_str (map_of kvs ''column_name'')) (\<lambda>c.
            Inr \<lparr>input = i, datetime = d, cv_column_name = c\<rparr>)))
      | _ \<Rightarrow> Inl ValidationError)"

definition validate_required :: "(json \<Rightarrow> exn + 'a) \<Rightarrow> json option \<Rightarrow> exn + 'a" where
  "validate_required f v = (case v of None \<Rightarrow> Inl ValidationError | Some x \<Rightarrow> f x)"

definition validate_str :: "json \<Rightarrow> exn + string" where
  "validate_str j = (case j of JStr s \<Rightarrow> Inr s | _ \<Rightarrow> Inl ValidationError)"

definition validate_operator :: "json \<Rightarrow> exn + operator" where
  "validate_operator j =
     (case j of
        JStr s \<Rightarrow> (case operator_of_literal s of None \<Rightarrow> Inl ValidationError | Some op \<Rightarrow> Inr op)
      | _ \<Rightarrow> Inl ValidationError)"

definition validate_Condition :: "json \<Rightarrow> exn + condition" where
  "validate_Condition j =
     (case j of
        JObj kvs \<Rightarrow>
          py_bind (validate_required validate_str (map_of kvs ''column_name'')) (\<lambda>n.
          py_bind (validate_required validate_operator (map_of kvs ''operator'')) (\<lambda>op.
          py_bind (validate_required validate_ComparisonValue (map_of kvs ''comparison_value'')) (\<lambda>v.
            Inr \<lparr>column_name = n, operator = op, comparison_value = v\<rparr>)))
      | _ \<Rightarrow> Inl ValidationError)"



text \<open>The first failure of a list of results, or all their values.\<close>

fun sequence :: "(exn + 'a) list \<Rightarrow> exn + 'a list" where
  "sequence [] = Inr []"
| "sequence (r # rs) = py_bind r (\<lambda>x. py_bind (sequence rs) (\<lambda>xs. Inr (x # xs)))"

definition as_member :: "exn + logical_expression \<Rightarrow> json \<Rightarrow> exn + member" where
  "as_member r j =
     (case r of
        Inr e \<Rightarrow> Inr (MExpression e)
      | Inl _ \<Rightarrow> py_bind (validate_Condition j) (\<lambda>c. Inr (MCondition c)))"

definition as_branch :: "(exn + 'a) list option \<Rightarrow> exn + 'a list option" where
  "as_branch b = (case b of None \<Rightarrow> Inr None | Some rs \<Rightarrow> py_bind (sequence rs) (\<lambda>xs. Inr (Some xs)))"

text \<open>A value of a dictionary is smaller than the dictionary: the validation terminates.\<close>

lemma size_map_of:
  "map_of kvs k = Some v \<Longrightarrow> size v < Suc (size_list (size_prod (\<lambda>_. 0) size) kvs)"
  by (induction kvs) (auto split: if_splits)

function validate_LogicalExpression :: "json \<Rightarrow> exn + logical_expression" where
  "validate_LogicalExpression (JObj kvs) =
     py_bind
       (case field kvs ''and'' ''and_'' of
          None \<Rightarrow> Inr None
        | Some JNull \<Rightarrow> Inr None
        | Some (JList xs) \<Rightarrow>
            as_branch (Some (map (\<lambda>x. as_member (validate_LogicalExpression x) x) xs))
        | Some _ \<Rightarrow> Inl ValidationError)
       (\<lambda>a. py_bind
          (case field kvs ''or'' ''or_'' of
             None \<Rightarrow> Inr None
           | Some JNull \<Rightarrow> Inr None
           | Some (JList xs) \<Rightarrow>
               as_branch (Some (map (\<lambda>x. as_member (validate_LogicalExpression x) x) xs))
           | Some _ \<Rightarrow> Inl ValidationError)
          (\<lambda>b. LogicalExpression_init a b))"
| "validate_LogicalExpression JNull = Inl ValidationError"
| "validate_LogicalExpression (JBool b) = Inl ValidationError"
| "validate_LogicalExpression (JInt i) = Inl ValidationError"
| "validate_LogicalExpression (JStr s) = Inl ValidationError"
| "validate_LogicalExpression (JList xs) = Inl ValidationError"
  by pat_completeness auto
termination
proof (relation "measure size")
  show "wf (measure size)" by simp
next
  fix kvs x2 xs x
  assume "field kvs ''and'' ''and_'' = Some x2" "x2 = JList xs" "x \<in> set xs"
  then have "map_of kvs ''and'' = Some (JList xs) \<or> map_of kvs ''and_'' = Some (JList xs)"
    by (auto simp: field_def split: option.splits)
  then have "size (JList xs) < size (JObj kvs)" by (auto dest: size_map_of)
  moreover have "size x < size (JList xs)" using \<open>x \<in> set xs\<close>
    by (simp add: less_Suc_eq_le size_list_estimation')
  ultimately show "(x, JObj kvs) \<in> measure size" by simp
next
  fix kvs a x2 xs x
  assume "field kvs ''or'' ''or_'' = Some x2" "x2 = JList xs" "x \<in> set xs"
  then have "map_of kvs ''or'' = Some (JList xs) \<or> map_of kvs ''or_'' = Some (JList xs)"
    by (auto simp: field_def split: option.splits)
  then have "size (JList xs) < size (JObj kvs)" by (auto dest: size_map_of)
  moreover have "size x < size (JList xs)" using \<open>x \<in> set xs\<close>
    by (simp add: less_Suc_eq_le size_list_estimation')
  ultimately show "(x, JObj kvs) \<in> measure size" by simp
qed

text \<open>
  Every node of the expression passes \<^verbatim>\<open>validate_structure\<close>: such a value is what the
  constructors can build.
\<close>

fun constructible :: "logical_expression \<Rightarrow> bool"
and constructible_member :: "member \<Rightarrow> bool" where
  "constructible (LogicalExpression a b) =
     ((populated a \<or> populated b)
      \<and> (case a of None \<Rightarrow> True | Some ms \<Rightarrow> list_all constructible_member ms)
      \<and> (case b of None \<Rightarrow> True | Some ms \<Rightarrow> list_all constructible_member ms))"
| "constructible_member (MExpression e) = constructible e"
| "constructible_member (MCondition c) = True"






subsection \<open>Example objects\<close>

definition wire_condition :: json where
  "wire_condition =
     JObj [(''column_name'', JStr ''Country''), (''operator'', JStr ''equal to''),
           (''comparison_value'', JObj [(''input'', JStr ''US'')])]"





section \<open>Construction of a logical expression\<close>

lemma LogicalExpression_init_succeeds_iff:
  "(\<exists>e. LogicalExpression_init a b = Inr e) = (populated a \<or> populated b)"
  by (auto simp: LogicalExpression_init_def validate_structure_def py_bind_def Let_def)

lemma LogicalExpression_init_neither:
  "\<not> populated a \<Longrightarrow> \<not> populated b \<Longrightarrow>
   LogicalExpression_init a b =
     Inl (ValueError ''Either 'and' or 'or' must be present in LogicalExpression.'')"
  by (simp add: LogicalExpression_init_def validate_structure_def py_bind_def)

lemma ReplaceLogicalExpression_init_succeeds_iff:
  "(\<exists>e. ReplaceLogicalExpression_init a b r = Inr e) = (populated a \<or> populated b)"
  by (auto simp: ReplaceLogicalExpression_init_def replace_validate_structure_def py_bind_def Let_def)

text \<open>
  Claim C1. Constructing a \<^verbatim>\<open>LogicalExpression\<close> or a \<^verbatim>\<open>ReplaceLogicalExpression\<close> is said
  to raise when both branches are supplied. The code only checks that one of them is
  populated: with both branches populated the construction returns the node, for the
  plain class and for the replace one.
\<close>

theorem init_accepts_both_branches:
  "LogicalExpression_init (Some (m # ms)) (Some (m' # ms')) =
     Inr (LogicalExpression (Some (m # ms)) (Some (m' # ms')))
   \<and> ReplaceLogicalExpression_init (Some (r # rs)) (Some (r' # rs')) v =
     Inr (ReplaceLogicalExpression (Some (r # rs)) (Some (r' # rs')) v)"
  by (simp add: LogicalExpression_init_def validate_structure_def
      ReplaceLogicalExpression_init_def replace_validate_structure_def py_bind_def populated_def)

section \<open>The serialized step objects\<close>

lemma drop_branch_dump_LogicalExpression:
  "drop_branch (dump_LogicalExpression e) =
     Inr (JObj [case and_field e of
                  None \<Rightarrow> (''or'', dump_optional (\<lambda>xs. JList (map dump_member xs)) (or_field e))
                | Some xs \<Rightarrow> (''and'', JList (map dump_member xs))])"
  by (cases e)
    (auto simp: drop_branch_def py_bind_def getitem_def delitem_def dump_optional_def
      split: option.splits)

lemma filter_step_eq:
  "filter_step e =
     Inr (JObj [(''expression'',
                 JObj [case and_field e of
                         None \<Rightarrow> (''or'', dump_optional (\<lambda>xs. JList (map dump_member xs)) (or_field e))
                       | Some xs \<Rightarrow> (''and'', JList (map dump_member xs))]),
                (''action'', JStr ''filter'')])"
  by (simp add: filter_step_def dump_FilterAction_def py_bind_def getitem_def setitem_def
      drop_branch_dump_LogicalExpression Let_def split: option.splits)

lemma drop_branch_dump_ReplaceLogicalExpression:
  "drop_branch (dump_ReplaceLogicalExpression w) = Inr (stripped_when w)"
  by (cases w)
    (auto simp: drop_branch_def stripped_when_def py_bind_def getitem_def delitem_def
      dump_optional_def split: option.splits)

lemma drop_branches_dump:
  "drop_branches (map dump_ReplaceLogicalExpression ws) = Inr (map stripped_when ws)"
  by (induction ws) (simp_all add: drop_branch_dump_ReplaceLogicalExpression py_bind_def)

lemma replace_step_eq:
  "replace_step expr column =
     Inr (JObj [(''expression'',
                 JObj [(''when'', JList (map stripped_when (when_field expr))),
                       (''else'', dump_ComparisonValue (else_field expr)),
                       (''replace_column'', JStr column)]),
                (''action'', JStr ''replace'')])"
  by (simp add: replace_step_def dump_ReplaceAction_def dump_ReplaceExpression_def py_bind_def
      getitem_def setitem_def delitem_def drop_branches_dump Let_def)

text \<open>
  Claim C2. The step object is said never to hold both an \<^verbatim>\<open>and\<close> and an \<^verbatim>\<open>or\<close> key
  at one nesting level. The filter tool deletes the unused key of the top node only: for
  the filter \<^verbatim>\<open>and: [ and: [Country equal to US] ]\<close> the inner node is written with both
  keys, \<^verbatim>\<open>or\<close> being \<^verbatim>\<open>None\<close>.
\<close>

theorem filter_step_nested_node_keeps_both_keys:
  "filter_step
     (LogicalExpression
        (Some [MExpression (LogicalExpression (Some [MCondition country_is_US]) None)]) None) =
   Inr (JObj [(''expression'',
               JObj [(''and'',
                      JList [JObj [(''and'', JList [dump_Condition country_is_US]),
                                   (''or'', JNull)]])]),
              (''action'', JStr ''filter'')])
   \<and> both_keys
       (JObj [(''expression'',
               JObj [(''and'',
                      JList [JObj [(''and'', JList [dump_Condition country_is_US]),
                                   (''or'', JNull)]])]),
              (''action'', JStr ''filter'')])"
  by (simp add: filter_step_eq)

text \<open>
  The replace tool does the same: the loop visits the entries of \<^verbatim>\<open>when\<close>, not the nodes
  below them.
\<close>

lemma replace_step_nested_node_keeps_both_keys:
  "\<exists>d. replace_step
          \<lparr>else_field = v,
           when_field = [ReplaceLogicalExpression
             (Some [RExpression (ReplaceLogicalExpression None (Some [RCondition c]) r)]) None r]\<rparr>
          column = Inr d
      \<and> both_keys d"
  by (simp add: replace_step_eq stripped_when_def dump_ComparisonValue_def)

text \<open>
  Claim C6. For every replace action the step object holds, inside \<^verbatim>\<open>expression\<close>, the
  fallback value under \<^verbatim>\<open>else\<close> (and nothing under \<^verbatim>\<open>else_\<close>) and the target column under
  \<^verbatim>\<open>replace_column\<close>, and it has no \<^verbatim>\<open>replace_column\<close> key at the top level.
\<close>

theorem replace_step_hoists_replace_column:
  "\<exists>d e. replace_step expr column = Inr d
      \<and> getitem d ''expression'' = Inr e
      \<and> getitem e ''else'' = Inr (dump_ComparisonValue (else_field expr))
      \<and> getitem e ''else_'' = Inl (KeyError (JStr ''else_''))
      \<and> getitem e ''replace_column'' = Inr (JStr column)
      \<and> getitem d ''replace_column'' = Inl (KeyError (JStr ''replace_column''))
      \<and> getitem d ''action'' = Inr (JStr ''replace'')"
  by (simp add: replace_step_eq getitem_def)

section \<open>The tools and their failures\<close>

lemma fetch_steps_get_raises:
  "requests_get w = Inl e \<Longrightarrow> fetch_steps w = Inl e"
  by (simp add: fetch_steps_def get_transformation_data_def try_except_def py_bind_def)

lemma fetch_steps_echo_backend:
  "fetch_steps (echo_backend (JObj [(''data'', JList []), (''steps'', s)])) = Inr s"
  by (simp add: fetch_steps_def get_transformation_data_def try_except_def py_bind_def
      echo_backend_def change_response_data_def getitem_def pivot_def py_len_def)

lemma pop_times_list:
  "n \<le> length xs \<Longrightarrow> pop_times n (JList xs) = Inr (JList (take (length xs - n) xs))"
proof (induction n arbitrary: xs)
  case 0
  then show ?case by simp
next
  case (Suc n)
  then have ne: "xs \<noteq> []" by auto
  have "n \<le> length (butlast xs)" using Suc.prems by simp
  from Suc.IH[OF this] show ?case using ne Suc.prems
    by (simp add: py_bind_def py_pop_def butlast_conv_take)
qed

lemma pop_times_too_many:
  "length xs < n \<Longrightarrow> pop_times n (JList xs) = Inl IndexError"
proof (induction n arbitrary: xs)
  case 0
  then show ?case by simp
next
  case (Suc n)
  show ?case
  proof (cases "xs = []")
    case True
    then show ?thesis by (simp add: py_bind_def py_pop_def)
  next
    case False
    then have "length (butlast xs) < n" using Suc.prems by (cases xs rule: rev_cases) auto
    from Suc.IH[OF this] show ?thesis using False
      by (simp add: py_bind_def py_pop_def)
  qed
qed

text \<open>
  Claim C3. With a requested count above the number of steps the tool is said to clamp the
  count and to leave an empty list, without an error. The guard of lines 69 and 70 is the
  other way round: the count is kept, the loop pops once more than the list has steps,
  \<^verbatim>\<open>pop\<close> raises \<^verbatim>\<open>IndexError\<close>, nothing is sent to the backend and the tool
  returns the failure string.
\<close>

theorem remove_last_step_count_exceeds_length:
  assumes "fetch_steps w = Inr (JList xs)" and "int (length xs) < n"
  shows "remove_last_step_request w n = Inl IndexError
     \<and> remove_last_step w n =
         Inr (Str (''Failed to remove the last step: '' @ str_exn w IndexError))"
proof -
  have "clamped_count (length xs) n = n" using assms(2) by (simp add: clamped_count_def)
  moreover have "length xs < nat n" using assms(2) by simp
  ultimately have "remove_last_step_request w n = Inl IndexError"
    using assms(1) by (simp add: remove_last_step_request_def py_bind_def py_len_def pop_times_too_many)
  then show ?thesis
    by (simp add: remove_last_step_def try_except_def py_bind_def remove_last_step_handler_def)
qed

theorem remove_last_step_count_exceeds_length_witness:
  "fetch_steps (echo_backend (JObj [(''data'', JList []), (''steps'', JList [filter_step_example])]))
     = Inr (JList [filter_step_example])
   \<and> int (length [filter_step_example]) < 2
   \<and> remove_last_step
        (echo_backend (JObj [(''data'', JList []), (''steps'', JList [filter_step_example])])) 2
     = Inr (Str ''Failed to remove the last step: <exception>'')"
proof -
  let ?w = "echo_backend (JObj [(''data'', JList []), (''steps'', JList [filter_step_example])])"
  have f: "fetch_steps ?w = Inr (JList [filter_step_example])"
    by (rule fetch_steps_echo_backend)
  have l: "int (length [filter_step_example]) < 2" by simp
  have "str_exn ?w IndexError = ''<exception>''" by (simp add: echo_backend_def)
  with remove_last_step_count_exceeds_length[OF f l] f l show ?thesis by simp
qed

text \<open>
  Claim C4. When the requested count is smaller than the number of steps, the count is
  overwritten with that number, every step is popped, and the body of the PUT holds the
  empty list: the tool goes on with the response to that PUT.
\<close>

theorem remove_last_step_smaller_count_removes_all:
  assumes "fetch_steps w = Inr (JList xs)" and "n < int (length xs)"
  shows "clamped_count (length xs) n = int (length xs)
     \<and> remove_last_step_request w n = Inr (JObj [(''steps'', JList [])])
     \<and> remove_last_step w n =
         try_except (remove_last_step_put w (JObj [(''steps'', JList [])])) (remove_last_step_handler w)"
proof -
  have c: "clamped_count (length xs) n = int (length xs)"
    using assms(2) by (simp add: clamped_count_def)
  have r: "remove_last_step_request w n = Inr (JObj [(''steps'', JList [])])"
    using assms(1) c by (simp add: remove_last_step_request_def py_bind_def py_len_def pop_times_list)
  show ?thesis using c r by (simp add: remove_last_step_def py_bind_def)
qed

theorem remove_last_step_smaller_count_removes_all_witness:
  "fetch_steps (echo_backend (JObj [(''data'', JList []),
       (''steps'', JList [filter_step_example, filter_step_example, filter_step_example])]))
     = Inr (JList [filter_step_example, filter_step_example, filter_step_example])
   \<and> (1::int) < int (length [filter_step_example, filter_step_example, filter_step_example])
   \<and> remove_last_step_request (echo_backend (JObj [(''data'', JList []),
       (''steps'', JList [filter_step_example, filter_step_example, filter_step_example])])) 1
     = Inr (JObj [(''steps'', JList [])])
   \<and> remove_last_step (echo_backend (JObj [(''data'', JList []),
       (''steps'', JList [filter_step_example, filter_step_example, filter_step_example])])) 1
     = Inr (Dict \<lparr>data = [], steps = JList [], error = None\<rparr>)"
proof -
  let ?xs = "[filter_step_example, filter_step_example, filter_step_example]"
  let ?w = "echo_backend (JObj [(''data'', JList []), (''steps'', JList ?xs)])"
  have f: "fetch_steps ?w = Inr (JList ?xs)"
    by (rule fetch_steps_echo_backend)
  have l: "(1::int) < int (length ?xs)" by simp
  have p: "try_except (remove_last_step_put ?w (JObj [(''steps'', JList [])])) (remove_last_step_handler ?w)
     = Inr (Dict \<lparr>data = [], steps = JList [], error = None\<rparr>)"
    by (simp add: remove_last_step_put_def try_except_def py_bind_def echo_backend_def
        change_response_data_def getitem_def pivot_def py_len_def last_step_error_def)
  from remove_last_step_smaller_count_removes_all[OF f l] f l p show ?thesis by simp
qed

text \<open>
  Claim C5. Every tool is said to turn an exception into a returned string. The handlers of
  \<^verbatim>\<open>get_transformation_data\<close> and of \<^verbatim>\<open>add_replace_action_tool\<close> raise the exception
  again: when the GET raises, both tools raise. The other two tools return a string, as
  the two lemmas after the example show.
\<close>

theorem fetch_and_replace_tools_reraise:
  "requests_get w = Inl e \<Longrightarrow>
   get_transformation_data w = Inl e \<and> add_replace_action_tool w expr column = Inl e"
  by (simp add: fetch_steps_get_raises replace_step_eq get_transformation_data_def
      add_replace_action_tool_def add_step_request_def try_except_def py_bind_def)

theorem fetch_and_replace_tools_reraise_witness:
  "requests_get unreachable_backend = Inl (RequestException ''connection refused'')
   \<and> get_transformation_data unreachable_backend = Inl (RequestException ''connection refused'')
   \<and> add_replace_action_tool unreachable_backend
        \<lparr>else_field = \<lparr>input = None, datetime = None, cv_column_name = Some ''AUM''\<rparr>, when_field = []\<rparr>
        ''AUM''
      = Inl (RequestException ''connection refused'')"
proof -
  have g: "requests_get unreachable_backend = Inl (RequestException ''connection refused'')"
    by (simp add: unreachable_backend_def)
  from fetch_and_replace_tools_reraise[OF g] g show ?thesis by simp
qed

lemma remove_last_step_returns: "\<exists>v. remove_last_step w n = Inr v"
  by (simp add: remove_last_step_def try_except_def remove_last_step_handler_def split: sum.splits)

lemma add_filter_action_tool_returns: "\<exists>v. add_filter_action_tool w e = Inr v"
  by (simp add: add_filter_action_tool_def try_except_def split: sum.splits)

section \<open>The column pivot\<close>

text \<open>The dictionary operations.\<close>

lemma store_fresh:
  "\<forall>e \<in> set d. key_of (fst e) \<noteq> Some k \<Longrightarrow> store k c v d = d @ [(c, v)]"
  by (induction d) auto

lemma append_at_map:
  "distinct (map (\<lambda>e. key_of (fst e)) d) \<Longrightarrow> \<exists>e \<in> set d. key_of (fst e) = Some k \<Longrightarrow>
   append_at k x d = Some (map (\<lambda>e. (fst e, if key_of (fst e) = Some k then snd e @ [x] else snd e)) d)"
proof (induction d)
  case Nil
  then show ?case by simp
next
  case (Cons a d)
  obtain c v where a: "a = (c, v)" by (cases a)
  show ?case
  proof (cases "key_of c = Some k")
    case True
    then have "\<forall>e \<in> set d. key_of (fst e) \<noteq> Some k"
      using Cons.prems(1) a by (auto simp: image_iff)
    then have "map (\<lambda>e. (fst e, if key_of (fst e) = Some k then snd e @ [x] else snd e)) d = d"
      by (induction d) auto
    with True a show ?thesis by simp
  next
    case False
    then have "\<exists>e \<in> set d. key_of (fst e) = Some k" using Cons.prems(2) a by auto
    moreover have "distinct (map (\<lambda>e. key_of (fst e)) d)" using Cons.prems(1) by simp
    ultimately show ?thesis using Cons.IH False a by simp
  qed
qed

lemma append_at_Some_map:
  "append_at k x d = Some d' \<Longrightarrow> distinct (map (\<lambda>e. key_of (fst e)) d) \<Longrightarrow>
   d' = map (\<lambda>e. (fst e, if key_of (fst e) = Some k then snd e @ [x] else snd e)) d"
proof -
  assume a: "append_at k x d = Some d'" and d: "distinct (map (\<lambda>e. key_of (fst e)) d)"
  have "\<exists>e \<in> set d. key_of (fst e) = Some k"
    using a by (induction d arbitrary: d') (auto split: if_splits)
  from append_at_map[OF d this] a show ?thesis by simp
qed

text \<open>The first loop, over names that are hashable and pairwise different keys.\<close>

lemma init_columns_distinct:
  "\<forall>c \<in> set cs. key_of c \<noteq> None \<Longrightarrow> distinct (map key_of cs) \<Longrightarrow>
   \<forall>c \<in> set cs. \<forall>e \<in> set d. key_of (fst e) \<noteq> key_of c \<Longrightarrow>
   init_columns cs d = Inr (d @ map (\<lambda>c. (c, [])) cs)"
proof (induction cs arbitrary: d)
  case Nil
  then show ?case by simp
next
  case (Cons c cs)
  from Cons.prems(1) obtain k where k: "key_of c = Some k" by auto
  have fresh: "\<forall>e \<in> set d. key_of (fst e) \<noteq> Some k" using Cons.prems(3) k by auto
  have s: "store k c [] d = d @ [(c, [])]" by (rule store_fresh[OF fresh])
  have "init_columns cs (d @ [(c, [])]) = Inr ((d @ [(c, [])]) @ map (\<lambda>c. (c, [])) cs)"
  proof (rule Cons.IH)
    show "\<forall>c \<in> set cs. key_of c \<noteq> None" using Cons.prems(1) by simp
    show "distinct (map key_of cs)" using Cons.prems(2) by simp
    show "\<forall>c' \<in> set cs. \<forall>e \<in> set (d @ [(c, [])]). key_of (fst e) \<noteq> key_of c'"
      using Cons.prems(2,3) by (auto simp: image_iff)
  qed
  then show ?case using k s by simp
qed


lemma append_at_columns_of:
  assumes dk: "distinct (map fst cr)"
    and dn: "distinct (map (\<lambda>e. key_of (snd e)) cr)"
    and mem: "(k, name) \<in> set cr"
    and kc: "key_of name = Some kc"
  shows "append_at kc x (columns_of cr f) = Some (columns_of cr (f(k := f k @ [x])))"
proof -
  have d: "distinct (map (\<lambda>e. key_of (fst e)) (columns_of cr f))"
    using dn by (simp add: columns_of_def comp_def)
  have ex: "\<exists>e \<in> set (columns_of cr f). key_of (fst e) = Some kc"
    using mem kc by (force simp: columns_of_def)
  have inj: "inj_on (\<lambda>e. key_of (snd e)) (set cr)" using dn by (simp add: distinct_map)
  have injk: "inj_on fst (set cr)" using dk by (simp add: distinct_map)
  have iff: "\<And>e. e \<in> set cr \<Longrightarrow> (key_of (snd e) = Some kc) = (fst e = k)"
  proof -
    fix e assume e: "e \<in> set cr"
    show "(key_of (snd e) = Some kc) = (fst e = k)"
    proof
      assume "key_of (snd e) = Some kc"
      then have "key_of (snd e) = key_of (snd (k, name))" using kc by simp
      from inj_onD[OF inj this e mem] have "e = (k, name)" .
      then show "fst e = k" by simp
    next
      assume "fst e = k"
      then have "fst e = fst (k, name)" by simp
      from inj_onD[OF injk this e mem] have "e = (k, name)" .
      then show "key_of (snd e) = Some kc" using kc by simp
    qed
  qed
  have "map (\<lambda>e. (fst e, if key_of (fst e) = Some kc then snd e @ [x] else snd e)) (columns_of cr f)
        = columns_of cr (f(k := f k @ [x]))"
    using iff by (auto simp: columns_of_def)
  with append_at_map[OF d ex, of x] show ?thesis by simp
qed

lemma append_row_columns_of:
  assumes dk: "distinct (map fst cr)"
    and dn: "distinct (map (\<lambda>e. key_of (snd e)) cr)"
    and hn: "\<forall>e \<in> set cr. key_of (snd e) \<noteq> None"
  shows "distinct (map fst items) \<Longrightarrow> set (map fst items) \<subseteq> set (map fst cr) \<Longrightarrow>
    append_row cr items (columns_of cr f) =
      Inr (columns_of cr (\<lambda>k. f k @ (case map_of items k of None \<Rightarrow> [] | Some v \<Rightarrow> [v])))"
proof (induction items arbitrary: f)
  case Nil
  then show ?case by simp
next
  case (Cons a items)
  obtain k v where a: "a = (k, v)" by (cases a)
  from Cons.prems(2) a have "k \<in> fst ` set cr" by auto
  then obtain name where mem: "(k, name) \<in> set cr" by force
  then have m: "map_of cr k = Some name" using dk by simp
  from hn mem obtain kc where kc: "key_of name = Some kc" by force
  have st: "append_at kc v (columns_of cr f) = Some (columns_of cr (f(k := f k @ [v])))"
    by (rule append_at_columns_of[OF dk dn mem kc])
  have nk: "map_of items k = None" using Cons.prems(1) a by (simp add: map_of_eq_None_iff)
  have ih: "append_row cr items (columns_of cr (f(k := f k @ [v]))) =
      Inr (columns_of cr (\<lambda>k'. (f(k := f k @ [v])) k' @ (case map_of items k' of None \<Rightarrow> [] | Some v \<Rightarrow> [v])))"
    using Cons.prems a by (intro Cons.IH) auto
  have "(\<lambda>k'. (f(k := f k @ [v])) k' @ (case map_of items k' of None \<Rightarrow> [] | Some v \<Rightarrow> [v]))
      = (\<lambda>k'. f k' @ (case map_of (a # items) k' of None \<Rightarrow> [] | Some v \<Rightarrow> [v]))"
    using nk a by (auto simp: fun_eq_iff)
  with ih m kc st a show ?case by simp
qed

lemma map_of_total:
  "distinct (map fst items) \<Longrightarrow> k \<in> set (map fst items) \<Longrightarrow>
   (case map_of items k of None \<Rightarrow> [] | Some v \<Rightarrow> [v]) = [the (map_of items k)]"
  by (cases "map_of items k") (auto simp: map_of_eq_None_iff)

lemma columns_of_cong:
  "(\<And>k. k \<in> set (map fst cr) \<Longrightarrow> f k = g k) \<Longrightarrow> columns_of cr f = columns_of cr g"
  by (auto simp: columns_of_def)

lemma columns_of_total:
  assumes "distinct (map fst items)" and "set (map fst cr) \<subseteq> set (map fst items)"
  shows "columns_of cr (\<lambda>k. f k @ (case map_of items k of None \<Rightarrow> [] | Some v \<Rightarrow> [v]))
       = columns_of cr (\<lambda>k. f k @ [the (map_of items k)])"
proof (rule columns_of_cong)
  fix k assume "k \<in> set (map fst cr)"
  then have "k \<in> set (map fst items)" using assms(2) by auto
  from map_of_total[OF assms(1) this]
  show "f k @ (case map_of items k of None \<Rightarrow> [] | Some v \<Rightarrow> [v]) = f k @ [the (map_of items k)]"
    by simp
qed

text \<open>
  Claim C7, as amended. The pivot is said to give every column exactly three values for
  every input of more than three rows. That needs a well-formed sample: when the names in
  the first row are hashable and pairwise different keys, and the second and third rows
  have the keys of the first (in any order), every column holds exactly the values of the
  first three rows, in row order, whatever follows them.
\<close>

theorem pivot_first_three_rows:
  assumes d0: "distinct (map fst r0)" and d1: "distinct (map fst r1)" and d2: "distinct (map fst r2)"
    and k1: "set (map fst r1) = set (map fst r0)" and k2: "set (map fst r2) = set (map fst r0)"
    and hn: "\<forall>e \<in> set r0. key_of (snd e) \<noteq> None"
    and dn: "distinct (map (\<lambda>e. key_of (snd e)) r0)"
  shows "pivot (JList (JObj r0 # JObj r1 # JObj r2 # rest)) =
     Inr (columns_of r0 (\<lambda>k. [the (map_of r0 k), the (map_of r1 k), the (map_of r2 k)]))"
proof -
  have i: "init_columns (map snd r0) [] = Inr (columns_of r0 (\<lambda>k. []))"
    using init_columns_distinct[of "map snd r0" "[]"] hn dn
    by (simp add: columns_of_def comp_def)
  have a0: "append_row r0 r0 (columns_of r0 (\<lambda>k. [])) =
      Inr (columns_of r0 (\<lambda>k. [the (map_of r0 k)]))"
    using append_row_columns_of[OF d0 dn hn d0, of "\<lambda>k. []"] columns_of_total[OF d0, of r0 "\<lambda>k. []"]
    by simp
  have a1: "append_row r0 r1 (columns_of r0 (\<lambda>k. [the (map_of r0 k)])) =
      Inr (columns_of r0 (\<lambda>k. [the (map_of r0 k), the (map_of r1 k)]))"
    using append_row_columns_of[OF d0 dn hn d1, of "\<lambda>k. [the (map_of r0 k)]"]
      columns_of_total[OF d1, of r0 "\<lambda>k. [the (map_of r0 k)]"] k1
    by simp
  have a2: "append_row r0 r2 (columns_of r0 (\<lambda>k. [the (map_of r0 k), the (map_of r1 k)])) =
      Inr (columns_of r0 (\<lambda>k. [the (map_of r0 k), the (map_of r1 k), the (map_of r2 k)]))"
    using append_row_columns_of[OF d0 dn hn d2, of "\<lambda>k. [the (map_of r0 k), the (map_of r1 k)]"]
      columns_of_total[OF d2, of r0 "\<lambda>k. [the (map_of r0 k), the (map_of r1 k)]"] k2
    by simp
  show ?thesis
    by (simp add: pivot_def py_bind_def py_len_def py_first_def i a0 a1 a2)
qed

theorem pivot_first_three_rows_witness:
  "pivot sample_data =
     Inr [(JStr ''Country'', [JStr ''Country'', JStr ''US'', JStr ''FR'']),
          (JStr ''AUM'', [JStr ''AUM'', JInt 10, JInt 20])]"
proof -
  let ?r0 = "[(''c1'', JStr ''Country''), (''c2'', JStr ''AUM'')]"
  let ?r1 = "[(''c2'', JInt 10), (''c1'', JStr ''US'')]"
  let ?r2 = "[(''c1'', JStr ''FR''), (''c2'', JInt 20)]"
  have d0: "distinct (map fst ?r0)" and d1: "distinct (map fst ?r1)"
    and d2: "distinct (map fst ?r2)" by simp_all
  have k1: "set (map fst ?r1) = set (map fst ?r0)" by auto
  have k2: "set (map fst ?r2) = set (map fst ?r0)" by simp
  have hn: "\<forall>e \<in> set ?r0. key_of (snd e) \<noteq> None" by simp
  have dn: "distinct (map (\<lambda>e. key_of (snd e)) ?r0)" by simp
  from pivot_first_three_rows[OF d0 d1 d2 k1 k2 hn dn,
      of "[JObj [(''c1'', JStr ''DE''), (''c2'', JInt 30)]]"]
  show ?thesis by (simp add: sample_data_def columns_of_def)
qed

text \<open>
  The claim as stated fails on a sample whose two columns have the same name: the one
  column of the result holds six values.
\<close>

theorem pivot_duplicate_names_counterexample:
  "pivot duplicate_names_data =
     Inr [(JStr ''Name'',
           [JStr ''Name'', JStr ''Name'', JStr ''Ann'', JStr ''Lee'', JStr ''Bob'', JStr ''Kim''])]
   \<and> length [JStr ''Name'', JStr ''Name'', JStr ''Ann'', JStr ''Lee'', JStr ''Bob'', JStr ''Kim'']
       \<noteq> 3"
  by (simp add: duplicate_names_data_def pivot_def py_bind_def py_len_def py_first_def)

lemma find_append_if:
  "find P (xs @ ys) = (case find P xs of None \<Rightarrow> find P ys | Some x \<Rightarrow> Some x)"
  by (induction xs) auto

lemma find_skip:
  "\<forall>x \<in> set xs. \<not> P x \<Longrightarrow> P y \<Longrightarrow> find P (xs @ y # ys) = Some y"
  by (induction xs) auto

lemma find_Some_mem: "find P xs = Some x \<Longrightarrow> x \<in> set xs"
  by (induction xs) (auto split: if_splits)

lemma store_existing_empty:
  "e \<in> set d \<Longrightarrow> key_of (fst e) = Some k \<Longrightarrow> \<forall>e \<in> set d. snd e = [] \<Longrightarrow>
   store k c [] d = d"
  by (induction d) auto

lemma init_columns_firsts:
  assumes "init_columns cs d = Inr d'"
    and "distinct (map (\<lambda>e. key_of (fst e)) d)"
    and "\<forall>e \<in> set d. snd e = [] \<and> find (\<lambda>x. key_of x = key_of (fst e)) (pre @ cs) = Some (fst e)"
    and "(\<lambda>e. key_of (fst e)) ` set d = key_of ` set pre"
  shows "distinct (map (\<lambda>e. key_of (fst e)) d')
     \<and> (\<forall>e \<in> set d'. snd e = [] \<and> find (\<lambda>x. key_of x = key_of (fst e)) (pre @ cs) = Some (fst e))"
  using assms
proof (induction cs arbitrary: d pre)
  case Nil
  then show ?case by simp
next
  case (Cons c cs)
  from Cons.prems(1) obtain k where k: "key_of c = Some k"
    by (cases "key_of c") auto
  with Cons.prems(1) have run: "init_columns cs (store k c [] d) = Inr d'" by simp
  have app: "(pre @ [c]) @ cs = pre @ c # cs" by simp
  have p3: "\<forall>e \<in> set d. snd e = [] \<and>
      find (\<lambda>x. key_of x = key_of (fst e)) ((pre @ [c]) @ cs) = Some (fst e)"
    using Cons.prems(3) by (simp only: app)
  show ?case
  proof (cases "\<exists>e \<in> set d. key_of (fst e) = Some k")
    case True
    then obtain e where e: "e \<in> set d" "key_of (fst e) = Some k" by blast
    have e3: "\<forall>e \<in> set d. snd e = []" using Cons.prems(3) by blast
    have same: "store k c [] d = d"
      by (rule store_existing_empty[OF e e3])
    have "key_of c \<in> (\<lambda>e. key_of (fst e)) ` set d" using e k by force
    then have "key_of c \<in> key_of ` set pre" using Cons.prems(4) by simp
    then have cls: "(\<lambda>e. key_of (fst e)) ` set d = key_of ` set (pre @ [c])"
      using Cons.prems(4) by (simp add: insert_absorb)
    have run': "init_columns cs d = Inr d'" using run same by simp
    have "distinct (map (\<lambda>e. key_of (fst e)) d')
       \<and> (\<forall>e \<in> set d'. snd e = [] \<and>
             find (\<lambda>x. key_of x = key_of (fst e)) ((pre @ [c]) @ cs) = Some (fst e))"
      by (rule Cons.IH[OF run' Cons.prems(2) p3 cls])
    then show ?thesis unfolding app .
  next
    case False
    then have fresh: "\<forall>e \<in> set d. key_of (fst e) \<noteq> Some k" by blast
    have st: "store k c [] d = d @ [(c, [])]" by (rule store_fresh[OF fresh])
    have nopre: "\<forall>x \<in> set pre. \<not> key_of x = key_of c"
    proof
      fix x assume "x \<in> set pre"
      then have "key_of x \<in> (\<lambda>e. key_of (fst e)) ` set d" using Cons.prems(4) by simp
      then obtain e where "e \<in> set d" "key_of x = key_of (fst e)" by blast
      then show "\<not> key_of x = key_of c" using fresh k by simp
    qed
    have fc: "find (\<lambda>x. key_of x = key_of c) (pre @ c # cs) = Some c"
      by (rule find_skip[OF nopre]) simp
    have nin: "key_of c \<notin> (\<lambda>e. key_of (fst e)) ` set d"
      using fresh k by force
    have d1: "distinct (map (\<lambda>e. key_of (fst e)) (d @ [(c, [])]))"
      using Cons.prems(2) nin by simp
    have i1: "\<forall>e \<in> set (d @ [(c, [])]).
        snd e = [] \<and> find (\<lambda>x. key_of x = key_of (fst e)) ((pre @ [c]) @ cs) = Some (fst e)"
    proof
      fix e assume "e \<in> set (d @ [(c, [])])"
      then have "e \<in> set d \<or> e = (c, [])" by auto
      then show "snd e = [] \<and> find (\<lambda>x. key_of x = key_of (fst e)) ((pre @ [c]) @ cs) = Some (fst e)"
      proof
        assume "e \<in> set d"
        with p3 show ?thesis by blast
      next
        assume "e = (c, [])"
        with fc show ?thesis by (simp only: app) simp
      qed
    qed
    have c1: "(\<lambda>e. key_of (fst e)) ` set (d @ [(c, [])]) = key_of ` set (pre @ [c])"
      using Cons.prems(4) by simp
    have run': "init_columns cs (d @ [(c, [])]) = Inr d'" using run st by simp
    have "distinct (map (\<lambda>e. key_of (fst e)) d')
       \<and> (\<forall>e \<in> set d'. snd e = [] \<and>
             find (\<lambda>x. key_of x = key_of (fst e)) ((pre @ [c]) @ cs) = Some (fst e))"
      by (rule Cons.IH[OF run' d1 i1 c1])
    then show ?thesis unfolding app .
  qed
qed

lemma headed_append_at:
  "append_at k x d = Some d' \<Longrightarrow> \<forall>e \<in> set d. snd e \<noteq> [] \<and> hd (snd e) = fst e \<Longrightarrow>
   \<forall>e \<in> set d'. snd e \<noteq> [] \<and> hd (snd e) = fst e"
proof (induction d arbitrary: d')
  case Nil
  then show ?case by simp
next
  case (Cons a d)
  obtain c v where a: "a = (c, v)" by (cases a)
  have hv: "v \<noteq> [] \<and> hd v = c" and hd: "\<forall>e \<in> set d. snd e \<noteq> [] \<and> hd (snd e) = fst e"
    using Cons.prems(2) a by auto
  show ?case
  proof (cases "key_of c = Some k")
    case True
    with Cons.prems(1) a have "d' = (c, v @ [x]) # d" by simp
    with hv hd show ?thesis by simp
  next
    case False
    with Cons.prems(1) a obtain z where z: "append_at k x d = Some z" and d': "d' = (c, v) # z"
      by auto
    from Cons.IH[OF z hd] d' hv show ?thesis by simp
  qed
qed

lemma headed_append_row:
  "append_row cr items d = Inr d' \<Longrightarrow> \<forall>e \<in> set d. snd e \<noteq> [] \<and> hd (snd e) = fst e \<Longrightarrow>
   \<forall>e \<in> set d'. snd e \<noteq> [] \<and> hd (snd e) = fst e"
proof (induction items arbitrary: d)
  case Nil
  then show ?case by simp
next
  case (Cons a items)
  obtain k v where a: "a = (k, v)" by (cases a)
  from Cons.prems(1) a obtain column kc d1 where
    "map_of cr k = Some column" "key_of column = Some kc" "append_at kc v d = Some d1"
    and run: "append_row cr items d1 = Inr d'"
    by (auto split: option.splits)
  from headed_append_at[OF this(3) Cons.prems(2)] Cons.IH[OF run] show ?case by blast
qed

lemma headed_append_rows:
  "append_rows cr rows i d = Inr d' \<Longrightarrow> \<forall>e \<in> set d. snd e \<noteq> [] \<and> hd (snd e) = fst e \<Longrightarrow>
   \<forall>e \<in> set d'. snd e \<noteq> [] \<and> hd (snd e) = fst e"
proof (induction rows arbitrary: i d)
  case Nil
  then show ?case by simp
next
  case (Cons row rows)
  from Cons.prems(1) obtain items where row: "row = JObj items" by (cases row) auto
  from Cons.prems(1) row obtain d1 where r1: "append_row cr items d = Inr d1"
    by (auto split: sum.splits)
  have h1: "\<forall>e \<in> set d1. snd e \<noteq> [] \<and> hd (snd e) = fst e"
    by (rule headed_append_row[OF r1 Cons.prems(2)])
  show ?case
  proof (cases "i + 1 > 2")
    case True
    with Cons.prems(1) row r1 have "d' = d1" by simp
    with h1 show ?thesis by simp
  next
    case False
    with Cons.prems(1) row r1 have "append_rows cr rows (i + 1) d1 = Inr d'" by simp
    from Cons.IH[OF this h1] show ?thesis .
  qed
qed

lemma append_row_first:
  assumes "append_row cr items d = Inr d'"
    and "cr = pre @ items"
    and "distinct (map fst cr)"
    and "distinct (map (\<lambda>e. key_of (fst e)) d)"
    and "\<forall>e \<in> set d. find (\<lambda>x. key_of x = key_of (fst e)) (map snd cr) = Some (fst e)
           \<and> (if key_of (fst e) \<in> key_of ` snd ` set pre
                then snd e \<noteq> [] \<and> hd (snd e) = fst e else snd e = [])"
  shows "\<forall>e \<in> set d'. snd e \<noteq> [] \<and> hd (snd e) = fst e"
  using assms
proof (induction items arbitrary: pre d)
  case Nil
  show ?case
  proof
    fix e assume e: "e \<in> set d'"
    from Nil.prems(1) have dd: "d' = d" by simp
    from Nil.prems(5) e dd have f: "find (\<lambda>x. key_of x = key_of (fst e)) (map snd cr) = Some (fst e)"
      and i: "if key_of (fst e) \<in> key_of ` snd ` set pre
                then snd e \<noteq> [] \<and> hd (snd e) = fst e else snd e = []"
      by blast+
    from find_Some_mem[OF f] have "fst e \<in> snd ` set pre" using Nil.prems(2) by simp
    then have "key_of (fst e) \<in> key_of ` snd ` set pre" by blast
    with i show "snd e \<noteq> [] \<and> hd (snd e) = fst e" by simp
  qed
next
  case (Cons a items)
  obtain k v where a: "a = (k, v)" by (cases a)
  have cr: "cr = pre @ (k, v) # items" using Cons.prems(2) a by simp
  have "k \<notin> fst ` set pre" using Cons.prems(3) cr by auto
  then have "map_of pre k = None" by (simp add: map_of_eq_None_iff)
  then have m: "map_of cr k = Some v" using cr by (simp add: map_add_def)
  from Cons.prems(1) a m obtain kc d1 where
    kc: "key_of v = Some kc" and at: "append_at kc v d = Some d1"
    and run: "append_row cr items d1 = Inr d'"
    by (auto split: option.splits)
  let ?g = "\<lambda>e. (fst e, if key_of (fst e) = Some kc then snd e @ [v] else snd e)"
  have d1: "d1 = map ?g d" by (rule append_at_Some_map[OF at Cons.prems(4)])
  have cr': "cr = (pre @ [(k, v)]) @ items" using cr by simp
  have dist1: "distinct (map (\<lambda>e. key_of (fst e)) d1)"
    using Cons.prems(4) by (simp add: d1 comp_def)
  have vals: "map snd cr = map snd pre @ v # map snd items" using cr by simp
  have inv1: "\<forall>e \<in> set d1. find (\<lambda>x. key_of x = key_of (fst e)) (map snd cr) = Some (fst e)
           \<and> (if key_of (fst e) \<in> key_of ` snd ` set (pre @ [(k, v)])
                then snd e \<noteq> [] \<and> hd (snd e) = fst e else snd e = [])"
  proof
    fix e1 assume "e1 \<in> set d1"
    then obtain e where e: "e \<in> set d" and e1: "e1 = ?g e" using d1 by auto
    from Cons.prems(5) e have f: "find (\<lambda>x. key_of x = key_of (fst e)) (map snd cr) = Some (fst e)"
      and i: "if key_of (fst e) \<in> key_of ` snd ` set pre
                then snd e \<noteq> [] \<and> hd (snd e) = fst e else snd e = []"
      by blast+
    have seen: "key_of ` snd ` set (pre @ [(k, v)]) = insert (Some kc) (key_of ` snd ` set pre)"
      using kc by simp
    show "find (\<lambda>x. key_of x = key_of (fst e1)) (map snd cr) = Some (fst e1)
           \<and> (if key_of (fst e1) \<in> key_of ` snd ` set (pre @ [(k, v)])
                then snd e1 \<noteq> [] \<and> hd (snd e1) = fst e1 else snd e1 = [])"
    proof (cases "key_of (fst e) = Some kc")
      case True
      show ?thesis
      proof (cases "key_of (fst e) \<in> key_of ` snd ` set pre")
        case True
        with i have "snd e \<noteq> [] \<and> hd (snd e) = fst e" by simp
        with f e1 seen \<open>key_of (fst e) = Some kc\<close> show ?thesis by simp
      next
        case False
        with i have emp: "snd e = []" by simp
        have "\<forall>x \<in> set (map snd pre). \<not> key_of x = key_of (fst e)"
        proof
          fix x assume "x \<in> set (map snd pre)"
          then have "key_of x \<in> key_of ` snd ` set pre" by auto
          with False show "\<not> key_of x = key_of (fst e)" by metis
        qed
        from find_skip[OF this, of v "map snd items"] \<open>key_of (fst e) = Some kc\<close> kc
        have "find (\<lambda>x. key_of x = key_of (fst e)) (map snd cr) = Some v"
          by (simp add: vals)
        with f have "fst e = v" by simp
        with f e1 seen emp \<open>key_of (fst e) = Some kc\<close> show ?thesis by simp
      qed
    next
      case False
      with f i e1 seen show ?thesis by simp
    qed
  qed
  from Cons.IH[OF run cr' Cons.prems(3) dist1 inv1] show ?case .
qed

text \<open>
  The pivot of a sample returns when the names in the first row are hashable and each of
  the first three rows is a dictionary whose keys are keys of the first row.
\<close>

lemma store_keys:
  "key_of c = Some k \<Longrightarrow>
   (\<lambda>e. key_of (fst e)) ` set (store k c v d) = insert (Some k) ((\<lambda>e. key_of (fst e)) ` set d)"
proof (induction d)
  case Nil
  then show ?case by simp
next
  case (Cons a d)
  obtain c' v' where a: "a = (c', v')" by (cases a)
  show ?case
  proof (cases "key_of c' = Some k")
    case True
    with a show ?thesis by simp
  next
    case False
    with a Cons.IH[OF Cons.prems] show ?thesis by (simp add: insert_commute)
  qed
qed

lemma init_columns_returns:
  "\<forall>c \<in> set cs. key_of c \<noteq> None \<Longrightarrow>
   \<exists>d'. init_columns cs d = Inr d'
     \<and> (\<lambda>e. key_of (fst e)) ` set d' = (\<lambda>e. key_of (fst e)) ` set d \<union> key_of ` set cs"
proof (induction cs arbitrary: d)
  case Nil
  then show ?case by simp
next
  case (Cons c cs)
  from Cons.prems obtain k where k: "key_of c = Some k" by auto
  from Cons.prems have "\<forall>c \<in> set cs. key_of c \<noteq> None" by simp
  from Cons.IH[OF this, of "store k c [] d"] obtain d' where
    "init_columns cs (store k c [] d) = Inr d'"
    "(\<lambda>e. key_of (fst e)) ` set d'
       = (\<lambda>e. key_of (fst e)) ` set (store k c [] d) \<union> key_of ` set cs"
    by blast
  then show ?case using k by (simp add: store_keys)
qed

lemma append_at_returns:
  "Some k \<in> (\<lambda>e. key_of (fst e)) ` set d \<Longrightarrow>
   \<exists>d'. append_at k x d = Some d' \<and> map fst d' = map fst d"
proof (induction d)
  case Nil
  then show ?case by simp
next
  case (Cons a d)
  show ?case
  proof (cases "key_of (fst a) = Some k")
    case True
    then show ?thesis by (cases a) simp
  next
    case False
    with Cons.prems have "Some k \<in> (\<lambda>e. key_of (fst e)) ` set d" by auto
    from Cons.IH[OF this] obtain d' where "append_at k x d = Some d'" "map fst d' = map fst d"
      by blast
    with False show ?thesis by (cases a) simp
  qed
qed

lemma append_row_returns:
  assumes "\<forall>e \<in> set cr. key_of (snd e) \<noteq> None"
    and "(\<lambda>e. key_of (snd e)) ` set cr \<subseteq> (\<lambda>e. key_of (fst e)) ` set d"
    and "fst ` set items \<subseteq> fst ` set cr"
  shows "\<exists>d'. append_row cr items d = Inr d' \<and> map fst d' = map fst d"
  using assms(2,3)
proof (induction items arbitrary: d)
  case Nil
  then show ?case by simp
next
  case (Cons a items)
  obtain k v where a: "a = (k, v)" by (cases a)
  from Cons.prems(2) a have "k \<in> fst ` set cr" by simp
  then obtain column where m: "map_of cr k = Some column"
    by (cases "map_of cr k") (auto simp: map_of_eq_None_iff)
  then have mem: "(k, column) \<in> set cr" by (rule map_of_SomeD)
  with assms(1) obtain kc where kc: "key_of column = Some kc" by force
  from mem kc have "Some kc \<in> (\<lambda>e. key_of (snd e)) ` set cr" by force
  with Cons.prems(1) have "Some kc \<in> (\<lambda>e. key_of (fst e)) ` set d" by blast
  from append_at_returns[OF this, of v] obtain d1 where
    d1: "append_at kc v d = Some d1" "map fst d1 = map fst d" by blast
  have keys: "(\<lambda>e. key_of (fst e)) ` set d1 = (\<lambda>e. key_of (fst e)) ` set d"
  proof -
    have "(\<lambda>e. key_of (fst e)) ` set d1 = key_of ` set (map fst d1)" by (simp add: image_image)
    also have "\<dots> = key_of ` set (map fst d)" using d1(2) by simp
    also have "\<dots> = (\<lambda>e. key_of (fst e)) ` set d" by (simp add: image_image)
    finally show ?thesis .
  qed
  have "\<exists>d'. append_row cr items d1 = Inr d' \<and> map fst d' = map fst d1"
    using Cons.prems keys by (intro Cons.IH) auto
  then show ?case using a m kc d1 by auto
qed

lemma append_rows_returns:
  assumes "\<forall>e \<in> set cr. key_of (snd e) \<noteq> None"
  shows "(\<lambda>e. key_of (snd e)) ` set cr \<subseteq> (\<lambda>e. key_of (fst e)) ` set d \<Longrightarrow>
    \<forall>row \<in> set (take (3 - i) rows). \<exists>items. row = JObj items \<and> fst ` set items \<subseteq> fst ` set cr \<Longrightarrow>
    i < 3 \<Longrightarrow>
    \<exists>d'. append_rows cr rows i d = Inr d'"
proof (induction rows arbitrary: i d)
  case Nil
  then show ?case by simp
next
  case (Cons row rows)
  from Cons.prems(3) obtain n where n: "3 - i = Suc n" by (cases "3 - i") auto
  with Cons.prems(2) obtain items where row: "row = JObj items"
    and sub: "fst ` set items \<subseteq> fst ` set cr" by auto
  from append_row_returns[OF assms Cons.prems(1) sub] obtain d1 where
    d1: "append_row cr items d = Inr d1" "map fst d1 = map fst d" by blast
  show ?case
  proof (cases "i + 1 > 2")
    case True
    with row d1 show ?thesis by simp
  next
    case False
    have keys: "(\<lambda>e. key_of (fst e)) ` set d1 = (\<lambda>e. key_of (fst e)) ` set d"
    proof -
      have "(\<lambda>e. key_of (fst e)) ` set d1 = key_of ` set (map fst d1)" by (simp add: image_image)
      also have "\<dots> = key_of ` set (map fst d)" using d1(2) by simp
      also have "\<dots> = (\<lambda>e. key_of (fst e)) ` set d" by (simp add: image_image)
      finally show ?thesis .
    qed
    have "3 - (i + 1) = n" using n by arith
    then have t: "take (3 - (i + 1)) rows = take n rows" by simp
    have "\<exists>d'. append_rows cr rows (i + 1) d1 = Inr d'"
    proof (rule Cons.IH)
      show "(\<lambda>e. key_of (snd e)) ` set cr \<subseteq> (\<lambda>e. key_of (fst e)) ` set d1"
        using Cons.prems(1) keys by simp
      show "\<forall>row \<in> set (take (3 - (i + 1)) rows).
          \<exists>items. row = JObj items \<and> fst ` set items \<subseteq> fst ` set cr"
        using Cons.prems(2) n t by simp
      show "i + 1 < 3" using False by simp
    qed
    with False row d1 show ?thesis by simp
  qed
qed

lemma pivot_returns:
  assumes "\<forall>e \<in> set cr. key_of (snd e) \<noteq> None"
    and "\<forall>row \<in> set (take 3 (JObj cr # rows)).
           \<exists>items. row = JObj items \<and> fst ` set items \<subseteq> fst ` set cr"
  shows "\<exists>d. pivot (JList (JObj cr # rows)) = Inr d"
proof -
  from assms(1) have "\<forall>c \<in> set (map snd cr). key_of c \<noteq> None" by simp
  from init_columns_returns[OF this, of "[]"] obtain d0 where
    d0: "init_columns (map snd cr) [] = Inr d0"
    "(\<lambda>e. key_of (fst e)) ` set d0 = key_of ` set (map snd cr)"
    by auto
  have "(\<lambda>e. key_of (snd e)) ` set cr \<subseteq> (\<lambda>e. key_of (fst e)) ` set d0"
    using d0(2) by (simp add: image_image)
  from append_rows_returns[OF assms(1) this, of 0 "JObj cr # rows"] assms(2)
  obtain d where "append_rows cr (JObj cr # rows) 0 d0 = Inr d" by auto
  with d0(1) show ?thesis
    by (simp add: pivot_def py_bind_def py_len_def py_first_def)
qed

text \<open>
  Claim C10. The first row is the mapping from identifiers to names and a data row as
  well: whenever the pivot of a non-empty sample returns (\<open>pivot_returns\<close> says when it
  does), every column of the result is non-empty and starts with its own name.
\<close>

theorem pivot_column_starts_with_its_name:
  assumes "pivot (JList (JObj cr # rows)) = Inr d"
    and "distinct (map fst cr)"
    and "(c, vs) \<in> set d"
  shows "vs \<noteq> [] \<and> hd vs = c"
proof -
  from assms(1) obtain d0 where i: "init_columns (map snd cr) [] = Inr d0"
    and r: "append_rows cr (JObj cr # rows) 0 d0 = Inr d"
    by (auto simp: pivot_def py_bind_def py_len_def py_first_def split: sum.splits)
  from r obtain d1 where r0: "append_row cr cr d0 = Inr d1"
    and r1: "append_rows cr rows 1 d1 = Inr d"
    by (auto split: sum.splits)
  have f: "distinct (map (\<lambda>e. key_of (fst e)) d0)
     \<and> (\<forall>e \<in> set d0. snd e = [] \<and> find (\<lambda>x. key_of x = key_of (fst e)) ([] @ map snd cr) = Some (fst e))"
    by (rule init_columns_firsts[OF i]) simp_all
  have h1: "\<forall>e \<in> set d1. snd e \<noteq> [] \<and> hd (snd e) = fst e"
  proof (rule append_row_first[OF r0, of "[]"])
    show "cr = [] @ cr" by simp
    show "distinct (map fst cr)" by (rule assms(2))
    show "distinct (map (\<lambda>e. key_of (fst e)) d0)" using f by blast
    show "\<forall>e \<in> set d0. find (\<lambda>x. key_of x = key_of (fst e)) (map snd cr) = Some (fst e)
           \<and> (if key_of (fst e) \<in> key_of ` snd ` set []
                then snd e \<noteq> [] \<and> hd (snd e) = fst e else snd e = [])"
      using f by simp
  qed
  from headed_append_rows[OF r1 h1] assms(3) show ?thesis by force
qed

theorem pivot_column_starts_with_its_name_witness:
  "pivot (JList [JObj [(''c1'', JStr ''Country''), (''c2'', JStr ''AUM'')],
                 JObj [(''c1'', JStr ''US''), (''c2'', JInt 10)]])
     = Inr [(JStr ''Country'', [JStr ''Country'', JStr ''US'']), (JStr ''AUM'', [JStr ''AUM'', JInt 10])]
   \<and> distinct (map fst [(''c1'', JStr ''Country''), (''c2'', JStr ''AUM'')])
   \<and> (JStr ''AUM'', [JStr ''AUM'', JInt 10])
       \<in> set [(JStr ''Country'', [JStr ''Country'', JStr ''US'']), (JStr ''AUM'', [JStr ''AUM'', JInt 10])]
   \<and> [JStr ''AUM'', JInt 10] \<noteq> []
   \<and> hd [JStr ''AUM'', JInt 10] = JStr ''AUM''"
proof -
  have p: "pivot (JList [JObj [(''c1'', JStr ''Country''), (''c2'', JStr ''AUM'')],
                 JObj [(''c1'', JStr ''US''), (''c2'', JInt 10)]])
     = Inr [(JStr ''Country'', [JStr ''Country'', JStr ''US'']), (JStr ''AUM'', [JStr ''AUM'', JInt 10])]"
    by (simp add: pivot_def py_bind_def py_len_def py_first_def)
  have d: "distinct (map fst [(''c1'', JStr ''Country''), (''c2'', JStr ''AUM'')])" by simp
  have m: "(JStr ''AUM'', [JStr ''AUM'', JInt 10])
       \<in> set [(JStr ''Country'', [JStr ''Country'', JStr ''US'']), (JStr ''AUM'', [JStr ''AUM'', JInt 10])]"
    by simp
  from pivot_column_starts_with_its_name[OF p d m] p d m show ?thesis by blast
qed

section \<open>The error of the last step\<close>

lemma last_step_error_list:
  assumes "xs \<noteq> []" and "getitem (last xs) ''error'' = Inr err"
  shows "last_step_error w (JList xs) =
     Inr (if truthy err then Some (''Error in the last step: '' @ py_str w err) else None)"
  using assms by (simp add: last_step_error_def py_bind_def py_len_def py_last_def)

text \<open>
  Claim C8, as amended. With the check enabled, on a response whose data pivot and whose
  step list is not empty, the result holds an \<^verbatim>\<open>error\<close> key exactly when the \<^verbatim>\<open>error\<close>
  field of the last step is true in Python's sense (not \<^verbatim>\<open>None\<close>, \<^verbatim>\<open>False\<close>, \<^verbatim>\<open>0\<close>
  or empty); its value is then the text \<^verbatim>\<open>Error in the last step: \<close> followed by the
  message, so it contains the message.
\<close>

theorem last_step_error_reported:
  assumes "getitem response_data ''data'' = Inr transformation_data"
    and "pivot transformation_data = Inr cols"
    and "getitem response_data ''steps'' = Inr (JList xs)"
    and "xs \<noteq> []"
    and "getitem (last xs) ''error'' = Inr err"
  shows "\<exists>r. change_response_data w response_data True = Inr r
      \<and> data r = cols \<and> steps r = JList xs
      \<and> (truthy err \<longrightarrow>
            error r = Some (''Error in the last step: '' @ py_str w err)
            \<and> sublist (py_str w err) (the (error r)))
      \<and> (\<not> truthy err \<longrightarrow> error r = None)"
proof -
  let ?e = "if truthy err then Some (''Error in the last step: '' @ py_str w err) else None"
  have r: "change_response_data w response_data True = Inr \<lparr>data = cols, steps = JList xs, error = ?e\<rparr>"
    using assms by (simp add: change_response_data_def py_bind_def last_step_error_list)
  have s: "sublist (py_str w err) (''Error in the last step: '' @ py_str w err)"
    by (rule sublist_append_leftI)
  show ?thesis
    unfolding r using s by (intro exI[of _ "\<lparr>data = cols, steps = JList xs, error = ?e\<rparr>"]) simp
qed

text \<open>
  The claim as stated fails for an \<^verbatim>\<open>error\<close> field that is not \<^verbatim>\<open>None\<close> and yet false:
  with the empty string no \<^verbatim>\<open>error\<close> key is added.
\<close>

theorem last_step_empty_error_counterexample:
  "getitem (JObj [(''action'', JStr ''filter''), (''error'', JStr [])]) ''error'' = Inr (JStr [])
   \<and> JStr [] \<noteq> JNull
   \<and> change_response_data unreachable_backend
       (JObj [(''data'', JList []),
              (''steps'', JList [JObj [(''action'', JStr ''filter''), (''error'', JStr [])]])]) True
     = Inr \<lparr>data = [],
            steps = JList [JObj [(''action'', JStr ''filter''), (''error'', JStr [])]],
            error = None\<rparr>"
  by (simp add: change_response_data_def py_bind_def getitem_def pivot_def py_len_def
      last_step_error_def py_last_def truthy_def)


theorem last_step_error_reported_witness:
  "change_response_data unreachable_backend
     (JObj [(''data'', JList []),
            (''steps'', JList [filter_step_example,
               JObj [(''action'', JStr ''filter''), (''error'', JStr ''Column not found'')]])]) True
   = Inr \<lparr>data = [],
          steps = JList [filter_step_example,
               JObj [(''action'', JStr ''filter''), (''error'', JStr ''Column not found'')]],
          error = Some ''Error in the last step: Column not found''\<rparr>
   \<and> change_response_data unreachable_backend
     (JObj [(''data'', JList []), (''steps'', JList [filter_step_example])]) True
   = Inr \<lparr>data = [], steps = JList [filter_step_example], error = None\<rparr>"
proof (intro conjI)
  let ?xs = "[filter_step_example,
               JObj [(''action'', JStr ''filter''), (''error'', JStr ''Column not found'')]]"
  let ?rd = "JObj [(''data'', JList []), (''steps'', JList ?xs)]"
  have h1: "getitem ?rd ''data'' = Inr (JList [])" by (simp add: getitem_def)
  have h2: "pivot (JList []) = Inr []" by (simp add: pivot_def py_bind_def py_len_def)
  have h3: "getitem ?rd ''steps'' = Inr (JList ?xs)" by (simp add: getitem_def)
  have h4: "?xs \<noteq> []" by simp
  have h5: "getitem (last ?xs) ''error'' = Inr (JStr ''Column not found'')"
    by (simp add: getitem_def)
  from last_step_error_reported[OF h1 h2 h3 h4 h5, of unreachable_backend]
  obtain r where r: "change_response_data unreachable_backend ?rd True = Inr r"
    and f: "data r = []" "steps r = JList ?xs"
    and e: "truthy (JStr ''Column not found'') \<longrightarrow>
        error r = Some (''Error in the last step: '' @ py_str unreachable_backend (JStr ''Column not found''))"
    by blast
  have "truthy (JStr ''Column not found'')" by (simp add: truthy_def)
  with e have "error r = Some ''Error in the last step: Column not found''"
    by (simp add: py_str_def)
  with f have "r = \<lparr>data = [], steps = JList ?xs,
      error = Some ''Error in the last step: Column not found''\<rparr>" by (cases r) simp
  with r show "change_response_data unreachable_backend ?rd True
      = Inr \<lparr>data = [], steps = JList ?xs,
          error = Some ''Error in the last step: Column not found''\<rparr>" by simp
next
  let ?xs = "[filter_step_example]"
  let ?rd = "JObj [(''data'', JList []), (''steps'', JList ?xs)]"
  have h1: "getitem ?rd ''data'' = Inr (JList [])" by (simp add: getitem_def)
  have h2: "pivot (JList []) = Inr []" by (simp add: pivot_def py_bind_def py_len_def)
  have h3: "getitem ?rd ''steps'' = Inr (JList ?xs)" by (simp add: getitem_def)
  have h4: "?xs \<noteq> []" by simp
  have h5: "getitem (last ?xs) ''error'' = Inr JNull"
    by (simp add: getitem_def filter_step_example_def)
  from last_step_error_reported[OF h1 h2 h3 h4 h5, of unreachable_backend]
  obtain r where r: "change_response_data unreachable_backend ?rd True = Inr r"
    and f: "data r = []" "steps r = JList ?xs"
    and e: "\<not> truthy JNull \<longrightarrow> error r = None"
    by blast
  have "\<not> truthy JNull" by (simp add: truthy_def)
  with e have "error r = None" by simp
  with f have "r = \<lparr>data = [], steps = JList ?xs, error = None\<rparr>" by (cases r) simp
  with r show "change_response_data unreachable_backend ?rd True
      = Inr \<lparr>data = [], steps = JList ?xs, error = None\<rparr>" by simp
qed

section \<open>The round trip through the model\<close>

lemma operator_of_literal_inverse: "operator_of_literal (operator_literal op) = Some op"
  by (cases op) simp_all

lemma validate_dump_ComparisonValue:
  "validate_ComparisonValue (dump_ComparisonValue v) = Inr v"
proof -
  have i: "validate_optional_scalar (Some (dump_optional dump_scalar (input v))) = Inr (input v)"
  proof (cases "input v")
    case None
    then show ?thesis by (simp add: validate_optional_scalar_def dump_optional_def)
  next
    case (Some s)
    then show ?thesis by (cases s) (simp_all add: validate_optional_scalar_def dump_optional_def)
  qed
  have s: "\<And>x. validate_optional_str (Some (dump_optional JStr x)) = Inr x"
    by (simp add: validate_optional_str_def dump_optional_def split: option.splits)
  show ?thesis
    by (simp add: validate_ComparisonValue_def dump_ComparisonValue_def py_bind_def i s)
qed

lemma validate_dump_Condition: "validate_Condition (dump_Condition c) = Inr c"
  by (simp add: validate_Condition_def dump_Condition_def py_bind_def validate_required_def
      validate_str_def validate_operator_def operator_of_literal_inverse
      validate_dump_ComparisonValue del: operator_of_literal.simps)

lemma validate_LogicalExpression_dump_Condition:
  "\<exists>err. validate_LogicalExpression (dump_Condition c) = Inl err"
  by (simp add: dump_Condition_def field_def py_bind_def LogicalExpression_init_def
      validate_structure_def populated_def)

lemma sequence_map_Inr:
  "(\<And>x. x \<in> set xs \<Longrightarrow> f x = Inr (g x)) \<Longrightarrow> sequence (map f xs) = Inr (map g xs)"
  by (induction xs) (simp_all add: py_bind_def)

lemma sequence_map_id:
  "(\<And>x. x \<in> set xs \<Longrightarrow> f (h x) = Inr x) \<Longrightarrow> sequence (map f (map h xs)) = Inr xs"
  by (induction xs) (simp_all add: py_bind_def)

lemma validate_dump:
  "constructible e \<Longrightarrow> validate_LogicalExpression (dump_LogicalExpression e) = Inr e"
  "constructible_member m \<Longrightarrow>
     as_member (validate_LogicalExpression (dump_member m)) (dump_member m) = Inr m"
proof (induction e and m rule: dump_LogicalExpression_dump_member.induct)
  case (1 a b)
  have br: "\<And>ms. ms \<in> set_option a \<or> ms \<in> set_option b \<Longrightarrow>
      as_branch (Some (map (\<lambda>x. as_member (validate_LogicalExpression x) x) (map dump_member ms)))
        = Inr (Some ms)"
  proof -
    fix ms assume ms: "ms \<in> set_option a \<or> ms \<in> set_option b"
    have "\<And>m. m \<in> set ms \<Longrightarrow>
        as_member (validate_LogicalExpression (dump_member m)) (dump_member m) = Inr m"
    proof -
      fix m assume m: "m \<in> set ms"
      from ms "1.prems" m have "constructible_member m"
        by (auto simp: list_all_iff)
      with ms m show "as_member (validate_LogicalExpression (dump_member m)) (dump_member m) = Inr m"
        using "1.IH" by auto
    qed
    then have "sequence (map (\<lambda>x. as_member (validate_LogicalExpression x) x) (map dump_member ms))
        = Inr ms"
      by (intro sequence_map_id) simp
    then show "as_branch (Some (map (\<lambda>x. as_member (validate_LogicalExpression x) x) (map dump_member ms)))
        = Inr (Some ms)"
      by (simp add: as_branch_def py_bind_def)
  qed
  have init: "LogicalExpression_init a b = Inr (LogicalExpression a b)"
    using "1.prems" by (auto simp: LogicalExpression_init_def validate_structure_def py_bind_def)
  show ?case
    using br init by (cases a; cases b) (simp_all add: field_def py_bind_def)
next
  case (2 e)
  then show ?case by (simp add: as_member_def)
next
  case (3 c)
  from validate_LogicalExpression_dump_Condition[of c] obtain err where
    "validate_LogicalExpression (dump_Condition c) = Inl err" by blast
  then show ?case by (simp add: as_member_def validate_dump_Condition py_bind_def)
qed






lemma filter_roundtrip:
  assumes "constructible e" and "and_field e = None \<or> or_field e = None"
  shows "\<exists>step ex. filter_step e = Inr step \<and> getitem step ''expression'' = Inr ex
      \<and> validate_LogicalExpression ex = Inr e"
proof -
  obtain a b where e: "e = LogicalExpression a b" by (cases e)
  from validate_dump(1)[OF assms(1)] e
  have full: "validate_LogicalExpression
      (JObj [(''and'', case a of None \<Rightarrow> JNull | Some xs \<Rightarrow> JList (map dump_member xs)),
             (''or'', case b of None \<Rightarrow> JNull | Some xs \<Rightarrow> JList (map dump_member xs))]) = Inr e"
    by simp
  have "validate_LogicalExpression
      (JObj [case and_field e of
               None \<Rightarrow> (''or'', dump_optional (\<lambda>xs. JList (map dump_member xs)) (or_field e))
             | Some xs \<Rightarrow> (''and'', JList (map dump_member xs))]) = Inr e"
    using full assms(2) e
    by (cases a; cases b) (simp_all add: field_def dump_optional_def)
  then show ?thesis by (simp add: filter_step_eq getitem_def)
qed











lemma validate_wire_condition: "validate_Condition wire_condition = Inr country_is_US"
  by (simp add: wire_condition_def validate_Condition_def py_bind_def validate_required_def
      validate_str_def validate_operator_def validate_ComparisonValue_def
      validate_optional_scalar_def validate_optional_str_def country_is_US_def)





text \<open>
  The step is not the object that was read, key for key: \<^verbatim>\<open>model_dump\<close> writes the
  fields that are \<^verbatim>\<open>None\<close>, so a comparison value given its \<^verbatim>\<open>input\<close> only comes back
  with \<^verbatim>\<open>datetime\<close> and \<^verbatim>\<open>column_name\<close> as well.
\<close>

lemma step_writes_absent_fields:
  "validate_Condition wire_condition = Inr country_is_US
   \<and> dump_Condition country_is_US =
       JObj [(''column_name'', JStr ''Country''), (''operator'', JStr ''equal to''),
             (''comparison_value'',
              JObj [(''input'', JStr ''US''), (''datetime'', JNull), (''column_name'', JNull)])]
   \<and> dump_Condition country_is_US \<noteq> wire_condition"
proof (intro conjI)
  show "validate_Condition wire_condition = Inr country_is_US"
    by (rule validate_wire_condition)
  show "dump_Condition country_is_US =
       JObj [(''column_name'', JStr ''Country''), (''operator'', JStr ''equal to''),
             (''comparison_value'',
              JObj [(''input'', JStr ''US''), (''datetime'', JNull), (''column_name'', JNull)])]"
    by (simp add: dump_Condition_def dump_ComparisonValue_def dump_optional_def
        country_is_US_def)
  then show "dump_Condition country_is_US \<noteq> wire_condition"
    by (simp add: wire_condition_def)
qed

text \<open>
  An object that supplies both branches is accepted as well, the constructor raising on
  neither branch only; the filter tool then keeps the \<^verbatim>\<open>and\<close> branch, and the step is
  validated to another expression.
\<close>

lemma step_drops_second_branch:
  "\<exists>step ex. filter_step (LogicalExpression (Some [MCondition c]) (Some [MCondition c'])) = Inr step
      \<and> getitem step ''expression'' = Inr ex
      \<and> validate_LogicalExpression ex = Inr (LogicalExpression (Some [MCondition c]) None)"
proof -
  have same: "filter_step (LogicalExpression (Some [MCondition c]) (Some [MCondition c']))
      = filter_step (LogicalExpression (Some [MCondition c]) None)"
    by (simp add: filter_step_eq)
  have "constructible (LogicalExpression (Some [MCondition c]) None)"
    by (simp add: populated_def)
  from filter_roundtrip[OF this] same show ?thesis by simp
qed

end
